theory Spec2Isabelle
  imports Main "HOL-Library.AList"
begin

section \<open>JavaScript strings\<close>

text \<open>
  A JavaScript string is a sequence of UTF-16 code units; \<open>length\<close>, \<open>substring\<close> and a
  regular expression without the \<open>u\<close> flag all work on code units. A code unit is
  modelled by its number. \<open>js\<close> writes an ASCII literal as such a sequence.
\<close>

type_synonym jschar = nat
type_synonym jsstring = "jschar list"

definition js :: "string \<Rightarrow> jsstring" where
  "js s = map of_char s"

text \<open>
  The class \<open>\s\<close> of an ECMAScript regular expression: TAB, LF, VT, FF, CR, SPACE,
  NBSP, U+1680, U+2000 to U+200A, U+2028, U+2029, U+202F, U+205F, U+3000 and U+FEFF.
\<close>

definition isWhiteSpace :: "jschar \<Rightarrow> bool" where
  "isWhiteSpace c \<longleftrightarrow>
     (0x09 \<le> c \<and> c \<le> 0x0D) \<or> c = 0x20 \<or> c = 0xA0 \<or> c = 0x1680 \<or>
     (0x2000 \<le> c \<and> c \<le> 0x200A) \<or> c = 0x2028 \<or> c = 0x2029 \<or> c = 0x202F \<or>
     c = 0x205F \<or> c = 0x3000 \<or> c = 0xFEFF"

text \<open>The class \<open>[a-z0-9\-_.]\<close> and the class \<open>[-_.]\<close> of \<open>sanitizeRepoName\<close>.\<close>

definition isAlnumLower :: "jschar \<Rightarrow> bool" where
  "isAlnumLower c \<longleftrightarrow> (0x61 \<le> c \<and> c \<le> 0x7A) \<or> (0x30 \<le> c \<and> c \<le> 0x39)"

definition isSeparator :: "jschar \<Rightarrow> bool" where
  "isSeparator c \<longleftrightarrow> c = 0x2D \<or> c = 0x5F \<or> c = 0x2E"

definition isRepoChar :: "jschar \<Rightarrow> bool" where
  "isRepoChar c \<longleftrightarrow> isAlnumLower c \<or> isSeparator c"

text \<open>
  \<open>String.prototype.toLowerCase\<close> is the engine's Unicode case mapping, not code of the
  repository: the functions below take it as the parameter \<open>lower\<close>. On a string whose
  code units are all ASCII it is \<open>toLowerCase_ascii\<close>, which also leaves every code unit
  without a case mapping (a CJK ideograph, say) as it is.
\<close>

definition toLowerCase_ascii :: "jsstring \<Rightarrow> jsstring" where
  "toLowerCase_ascii s = map (\<lambda>c. if 0x41 \<le> c \<and> c \<le> 0x5A then c + 0x20 else c) s"

text \<open>
  \<open>.replace(/\s+/g, '-')\<close>: every maximal run of white space becomes one hyphen.
\<close>

function replaceWhiteSpace :: "jsstring \<Rightarrow> jsstring" where
  "replaceWhiteSpace [] = []"
| "replaceWhiteSpace (c # cs) =
     (if isWhiteSpace c then 0x2D # replaceWhiteSpace (dropWhile isWhiteSpace cs)
      else c # replaceWhiteSpace cs)"
  by pat_completeness auto
termination
  by (relation "measure length") (auto simp: length_dropWhile_le le_imp_less_Suc)

text \<open>\<open>.replace(/[^a-z0-9\-_.]/g, '')\<close>: every code unit outside the class is deleted.\<close>

definition stripInvalid :: "jsstring \<Rightarrow> jsstring" where
  "stripInvalid s = filter isRepoChar s"

text \<open>
  \<open>.replace(/^[-_.]+|[-_.]+$/g, '')\<close>: the first alternative matches only at index 0 and
  takes the whole leading run of separators; the second matches at the leftmost index from
  which only separators follow up to the end, which is the whole trailing run. Both runs
  are deleted, and a string of separators only becomes empty.
\<close>

definition trimSeparators :: "jsstring \<Rightarrow> jsstring" where
  "trimSeparators s = rev (dropWhile isSeparator (rev (dropWhile isSeparator s)))"

text \<open>\<open>sanitizeRepoName(name)\<close> of \<open>main.js\<close> (and, with the same body, of \<open>renderer.js\<close>).\<close>

definition sanitizeRepoName :: "(jsstring \<Rightarrow> jsstring) \<Rightarrow> jsstring \<Rightarrow> jsstring" where
  "sanitizeRepoName lower name =
     take 100 (trimSeparators (stripInvalid (replaceWhiteSpace (lower name))))"

text \<open>
  \<open>String.prototype.includes\<close>: the argument occurs as a contiguous run of code units.
\<close>

fun str_includes :: "jsstring \<Rightarrow> jsstring \<Rightarrow> bool" where
  "str_includes [] sub = (sub = [])"
| "str_includes (c # cs) sub = (take (length sub) (c # cs) = sub \<or> str_includes cs sub)"

text \<open>
  The functions of the engine and of Node that the program calls on strings:
  \<open>toLowerCase\<close> and \<open>path.basename\<close>. \<open>posixHost\<close> is the instance used to run the
  model on ASCII names and POSIX paths.
\<close>

record host =
  toLowerCase :: "jsstring \<Rightarrow> jsstring"
  basename :: "jsstring \<Rightarrow> jsstring"

definition basename_posix :: "jsstring \<Rightarrow> jsstring" where
  "basename_posix p =
     rev (takeWhile (\<lambda>c. c \<noteq> 0x2F) (dropWhile (\<lambda>c. c = 0x2F) (rev p)))"

definition posixHost :: host where
  "posixHost = \<lparr>toLowerCase = toLowerCase_ascii, basename = basename_posix\<rparr>"

section \<open>The data model\<close>

text \<open>The configuration document; \<open>this.config\<close> is \<open>null\<close> until one is loaded or saved.\<close>

record config =
  username :: jsstring
  token :: jsstring
  watchPaths :: "jsstring list"
  ignoredPatterns :: "jsstring list"

text \<open>The values of \<open>project.status\<close>, in the source the strings \<open>'ready'\<close>,
  \<open>'needs-repo'\<close>, \<open>'changed'\<close>, \<open>'queued'\<close>, \<open>'syncing'\<close>, \<open>'synced'\<close>, \<open>'error'\<close>.\<close>

datatype project_status = Ready | NeedsRepo | Changed | Queued | Syncing | Synced | Error

text \<open>
  The literals assigned to \<open>project.message\<close> (Turkish display text in the source):
  ready, repository needed, new project found, changes found, up to date, synchronised,
  synchronisation error.
\<close>

datatype project_message =
  MsgReady | MsgNeedsRepo | MsgNewProject | MsgChanged | MsgUpToDate | MsgSynced | MsgSyncError

text \<open>
  The labels passed to \<open>updateProgressCallback\<close> and assigned to
  \<open>project.currentOperation\<close>, one constructor for each literal of the source: the empty
  string of a new record and the three labels of the scheduler (starting, finished,
  failed), then the labels of the workflow in the order of their first use.
  \<open>OpCommitting n\<close> carries the number of changed files that the label prints.
\<close>

datatype operation =
    OpNone | OpStarting | OpFinished | OpFailed
  | OpCheckingFolder | OpCheckingRemote | OpOffline | OpRemoteError
  | OpCreatingRemote | OpRemoteCreated | OpCreateError | OpRemoteExists
  | OpCheckingGit | OpInitialising | OpInitialised | OpInitError | OpGitExists
  | OpUpdatingRemote | OpRemoteUpdated | OpRemoteWarning
  | OpCheckingChanges | OpCommitting nat | OpCommitted | OpNoChanges | OpCommitError
  | OpUploading | OpCompleted | OpUpToDate | OpFirstUpload | OpFirstUploadDone
  | OpUploadError | OpGeneralError

text \<open>
  A project record. Every value the source assigns to \<open>progress\<close> is
  \<open>Math.round(x * 10) / 10\<close> for a literal \<open>x\<close> that is a whole number between 0 and 100,
  or such a literal itself, so the field is a natural number. \<open>lastCheck\<close> is a reading
  of the clock.
\<close>

record project =
  p_name :: jsstring
  p_path :: jsstring
  p_lastModified :: nat
  p_lastCheck :: nat
  p_hasGitRepo :: bool
  p_status :: project_status
  p_message :: project_message
  p_progress :: nat
  p_currentOperation :: operation
  p_error :: "jsstring option"

record networkStatus =
  isOnline :: bool
  lastCheck :: nat

text \<open>\<open>transferStats\<close> without \<open>uploadSpeed\<close>, a floating-point quotient of clock readings.\<close>

record transferStats =
  totalFiles :: nat
  currentFile :: jsstring
  uploadedFiles :: nat

record stats =
  totalProjects :: nat
  completedProjects :: nat
  failedProjects :: nat
  startTime :: "nat option"
  currentProject :: "jsstring option"
  currentPath :: "jsstring option"

text \<open>The values of \<open>status.phase\<close>, in the source the strings \<open>'idle'\<close>,
  \<open>'initializing'\<close>, \<open>'scanning'\<close>, \<open>'ready'\<close>, \<open>'monitoring'\<close> and \<open>'syncing'\<close>.\<close>

datatype phase = Idle | Initializing | Scanning | ScanDone | Monitoring | PhaseSyncing

text \<open>
  \<open>this.status\<close>. Its \<open>networkStatus\<close> and \<open>transferStats\<close> are references to the objects
  of the same name below; \<open>message\<close> and \<open>progress\<close> are display values computed in
  floating point and are not tracked (see \<open>ambient\<close>). \<open>projects\<close> is a \<open>Map\<close>: an
  association list with distinct keys in insertion order.
\<close>

record status =
  phase :: phase
  st_isRunning :: bool
  isSyncing :: bool
  projects :: "(jsstring \<times> project) list"
  st_currentPath :: "jsstring option"

text \<open>The local variables of a suspended \<open>processQueue\<close>: the snapshot and the loop index.\<close>

record batch =
  projectPaths :: "jsstring list"
  index :: nat

text \<open>
  The state of a \<open>GitAutoSync\<close> object, with what the event loop holds for it:
  \<^item> \<open>now\<close> is the clock (milliseconds) that \<open>Date.now()\<close> and the timers read;
  \<^item> \<open>debounceTimers\<close> maps a path to the time at which its pending timer fires; the
    entries stand in the order in which the timers were created, the order in which
    timers of equal delay fire;
  \<^item> \<open>syncQueue\<close> is a \<open>Set\<close>: a list without duplicates in insertion order, the order
    \<open>Array.from\<close> reads;
  \<^item> \<open>projectStates\<close> is a \<open>Map\<close> from a path to the stored modification time;
  \<^item> \<open>detections\<close> holds one entry for each suspended \<open>checkFolderModifications\<close>:
    the number of entries of \<open>projectStates\<close> before the position of its iterator;
  \<^item> \<open>running\<close> is the suspended \<open>processQueue\<close>, if there is one.
  The window, the tray, the log and the notifications are sinks of display text and are
  left out, as are the interval handles.
\<close>

record app =
  config :: "config option"
  isRunning :: bool
  now :: nat
  debounceTimers :: "(jsstring \<times> nat) list"
  network :: networkStatus
  transfer :: transferStats
  projectStates :: "(jsstring \<times> nat) list"
  syncQueue :: "jsstring list"
  stats :: stats
  status :: status
  detections :: "nat list"
  running :: "batch option"

section \<open>The collaborators: GitHub, git and the file system\<close>

text \<open>
  What an \<open>axios\<close> call settles to. It resolves for a status from 200 to 299 and rejects
  otherwise; \<open>Rejected st dm m\<close> carries \<open>error.response?.status\<close>,
  \<open>error.response?.data?.message\<close> and \<open>error.message\<close>, the first two absent when no
  response arrived (a timeout, an unreachable host).
\<close>

datatype axios_result = Resolved nat | Rejected "nat option" "jsstring option" jsstring

text \<open>
  The errors that the repository's own functions throw, one constructor for each
  \<open>new Error(...)\<close> of the source: \<open>GitHubApiError m\<close> is the text "GitHub API" error
  followed by \<open>m\<close>; \<open>TokenInvalid\<close> is the text saying that the token is invalid and must
  carry the "repo" permission; \<open>RateLimitExceeded\<close> is the text saying that the GitHub API
  rate limit is exceeded; \<open>RepoCreateError m\<close> is the repository creation error followed
  by \<open>m\<close>; \<open>GitInitError m\<close> is the git initialisation error followed by \<open>m\<close>.
\<close>

datatype error =
    GitHubApiError jsstring
  | TokenInvalid
  | RateLimitExceeded
  | RepoCreateError jsstring
  | GitInitError jsstring

definition checkGitHubRepo :: "axios_result \<Rightarrow> error + bool" where
  "checkGitHubRepo r =
     (case r of
        Resolved st \<Rightarrow> Inr (st = 200)
      | Rejected st dm m \<Rightarrow> if st = Some 404 then Inr False else Inl (GitHubApiError m))"

definition createGitHubRepo :: "axios_result \<Rightarrow> error + bool" where
  "createGitHubRepo r =
     (case r of
        Resolved st \<Rightarrow> Inr (st = 201)
      | Rejected st dm m \<Rightarrow>
          if st = Some 422 then Inr True
          else if st = Some 401 then Inl TokenInvalid
          else if st = Some 403 then Inl RateLimitExceeded
          else Inl (RepoCreateError
                 (case dm of None \<Rightarrow> m | Some d \<Rightarrow> if d = [] then m else d)))"

text \<open>
  The requests that the workflow sends to its collaborators. \<open>GetRepo u n\<close> is the GET of
  \<open>/repos/u/n\<close>, \<open>CreateRepo n\<close> the POST of a private repository named \<open>n\<close>,
  \<open>AddRemote t u n\<close> the \<open>git remote add origin\<close> of the URL built from the token \<open>t\<close>,
  the account \<open>u\<close> and the name \<open>n\<close>; the others are the git and file-system calls of the
  same name.
\<close>

datatype request =
    PathExists jsstring
  | GetRepo jsstring jsstring
  | CreateRepo jsstring
  | SimpleGit jsstring
  | CheckIsRepo
  | Init
  | AddConfigName jsstring
  | AddConfigEmail jsstring
  | WriteIgnoreFile jsstring "jsstring list"
  | AddAll
  | CommitInitial
  | BranchMain
  | AddRemote jsstring jsstring jsstring
  | RemoveRemote
  | GitStatus
  | CommitAuto
  | Push
  | PushUpstream

text \<open>
  A \<open>try\<close> block of awaited calls: they run in order, and the first that rejects (its
  outcome is \<open>Some\<close> message) ends the block. The result is that message, if any, and the
  requests that were sent.
\<close>

fun awaitAll :: "(request \<times> jsstring option) list \<Rightarrow> jsstring option \<times> request list" where
  "awaitAll [] = (None, [])"
| "awaitAll ((r, Some m) # rest) = (Some m, [r])"
| "awaitAll ((r, None) # rest) = (case awaitAll rest of (res, rs) \<Rightarrow> (res, r # rs))"

datatype init_step =
  StepInit | StepConfigName | StepConfigEmail | StepWriteIgnore | StepAdd | StepCommit
  | StepBranch | StepAddRemote

text \<open>
  What the collaborators answer during one run of the workflow; every call site runs at
  most once in a run. An \<open>option\<close> outcome is \<open>Some\<close> message when the call throws or
  rejects. \<open>gitStatus\<close> is the number of files that \<open>git status\<close> lists.
\<close>

record wf_env =
  folderExists :: bool
  getRepo :: axios_result
  createRepo :: axios_result
  simpleGit :: "jsstring option"
  checkIsRepo :: "bool option"
  initStep :: "init_step \<Rightarrow> jsstring option"
  addRemote :: "jsstring option"
  gitStatus :: "jsstring + nat"
  addAll :: "jsstring option"
  commit :: "jsstring option"
  push :: "jsstring option"
  pushUpstream :: "jsstring option"

definition initGitRepo ::
  "config \<Rightarrow> jsstring \<Rightarrow> jsstring \<Rightarrow> wf_env \<Rightarrow> (error + unit) \<times> request list" where
  "initGitRepo c repoName projectPath e =
     (case awaitAll
        [(Init, initStep e StepInit),
         (AddConfigName (username c), initStep e StepConfigName),
         (AddConfigEmail (username c), initStep e StepConfigEmail),
         (WriteIgnoreFile projectPath (ignoredPatterns c), initStep e StepWriteIgnore),
         (AddAll, initStep e StepAdd),
         (CommitInitial, initStep e StepCommit),
         (BranchMain, initStep e StepBranch),
         (AddRemote (token c) (username c) repoName, initStep e StepAddRemote)]
      of (None, rs) \<Rightarrow> (Inr (), rs)
       | (Some m, rs) \<Rightarrow> (Inl (GitInitError m), rs))"

section \<open>The project sync workflow\<close>

text \<open>
  \<open>updateStatus(phase, message, progress)\<close> on the tracked fields: the new status object
  keeps \<open>isSyncing\<close> and the \<open>projects\<close> map and copies \<open>isRunning\<close> and
  \<open>stats.currentPath\<close>.
\<close>

definition updateStatus :: "phase \<Rightarrow> app \<Rightarrow> app" where
  "updateStatus ph s =
     s\<lparr>status := (status s)\<lparr>phase := ph, st_isRunning := isRunning s,
                             st_currentPath := currentPath (stats s)\<rparr>\<rparr>"

text \<open>
  \<open>updateProgressCallback(operation, projectProgress)\<close> of \<open>syncProjectWithProgress\<close>;
  \<open>project\<close> there is the record that \<open>status.projects\<close> holds for the path.
\<close>

definition updateProgressCallback :: "jsstring \<Rightarrow> operation \<Rightarrow> nat \<Rightarrow> app \<Rightarrow> app" where
  "updateProgressCallback projectPath operation projectProgress s =
     updateStatus PhaseSyncing
       (s\<lparr>status := (status s)\<lparr>projects :=
            AList.map_entry projectPath
              (\<lambda>pr. pr\<lparr>p_currentOperation := operation, p_progress := projectProgress\<rparr>)
              (projects (status s))\<rparr>\<rparr>)"

text \<open>
  A run of the workflow yields the boolean it returns to the scheduler, the requests it
  sent, oldest first, and the state it leaves. \<open>issue r\<close> puts the request \<open>r\<close> before
  what follows it.
\<close>

type_synonym outcome = "bool \<times> request list \<times> app"

definition issue :: "request \<Rightarrow> outcome \<Rightarrow> outcome" where
  "issue r x = (case x of (ok, rs, s) \<Rightarrow> (ok, r # rs, s))"

definition issueAll :: "request list \<Rightarrow> outcome \<Rightarrow> outcome" where
  "issueAll rs' x = (case x of (ok, rs, s) \<Rightarrow> (ok, rs' @ rs, s))"

text \<open>The part of \<open>syncProjectWithProgress\<close> under \<open>// Push changes\<close>.\<close>

definition pushChanges :: "jsstring \<Rightarrow> bool \<Rightarrow> wf_env \<Rightarrow> app \<Rightarrow> outcome" where
  "pushChanges projectPath hasChanges e s =
     issue Push
       (case push e of
          None \<Rightarrow>
            (True, [],
             updateProgressCallback projectPath
               (if hasChanges then OpCompleted else OpUpToDate) 100 s)
        | Some m \<Rightarrow>
            if str_includes m (js ''upstream'') \<or> str_includes m (js ''no upstream'') then
              (let s1 = updateProgressCallback projectPath OpFirstUpload 98 s in
               issue PushUpstream
                 (case pushUpstream e of
                    None \<Rightarrow> (True, [], updateProgressCallback projectPath OpFirstUploadDone 100 s1)
                  | Some m' \<Rightarrow> (False, [], updateProgressCallback projectPath OpUploadError 0 s1)))
            else (False, [], updateProgressCallback projectPath OpUploadError 0 s))"

text \<open>The part under \<open>// Check for changes and commit\<close>, followed by the push.\<close>

definition commitChanges :: "jsstring \<Rightarrow> wf_env \<Rightarrow> app \<Rightarrow> outcome" where
  "commitChanges projectPath e s =
     (let s1 = updateProgressCallback projectPath OpCheckingChanges 80 s in
      issue GitStatus
        (case gitStatus e of
           Inl m \<Rightarrow> (False, [], updateProgressCallback projectPath OpCommitError 0 s1)
         | Inr changedFileCount \<Rightarrow>
             if 0 < changedFileCount then
               (let s2 = s1\<lparr>transfer := (transfer s1)
                              \<lparr>totalFiles := totalFiles (transfer s1) + changedFileCount\<rparr>\<rparr>;
                    s3 = updateProgressCallback projectPath (OpCommitting changedFileCount) 85 s2
                in issue AddAll
                     (case addAll e of
                        Some m \<Rightarrow> (False, [], updateProgressCallback projectPath OpCommitError 0 s3)
                      | None \<Rightarrow>
                          issue CommitAuto
                            (case commit e of
                               Some m \<Rightarrow>
                                 (False, [], updateProgressCallback projectPath OpCommitError 0 s3)
                             | None \<Rightarrow>
                                 pushChanges projectPath True e
                                   (updateProgressCallback projectPath OpUploading 95
                                     (updateProgressCallback projectPath OpCommitted 90 s3)))))
             else
               pushChanges projectPath False e
                 (updateProgressCallback projectPath OpUploading 95
                   (updateProgressCallback projectPath OpNoChanges 85 s1))))"

text \<open>
  The part under \<open>// Setup remote\<close>: a failure of \<open>removeRemote\<close> is swallowed, a failure
  of \<open>addRemote\<close> is a warning, and the workflow goes on in both cases.
\<close>

definition setupRemote :: "config \<Rightarrow> jsstring \<Rightarrow> jsstring \<Rightarrow> wf_env \<Rightarrow> app \<Rightarrow> outcome" where
  "setupRemote c projectPath repoName e s =
     (let s1 = updateProgressCallback projectPath OpUpdatingRemote 70 s in
      issue RemoveRemote
        (issue (AddRemote (token c) (username c) repoName)
          (commitChanges projectPath e
            (case addRemote e of
               None \<Rightarrow> updateProgressCallback projectPath OpRemoteUpdated 75 s1
             | Some m \<Rightarrow> updateProgressCallback projectPath OpRemoteWarning 75 s1))))"

text \<open>
  The part under \<open>// Git operations\<close>. \<open>simpleGit(projectPath)\<close> is not inside an inner
  \<open>try\<close>: when it throws, the outer \<open>catch\<close> stores the message in \<open>project.error\<close>.
  A rejected \<open>checkIsRepo\<close> counts as "not a repository".
\<close>

definition gitOperations :: "config \<Rightarrow> jsstring \<Rightarrow> jsstring \<Rightarrow> wf_env \<Rightarrow> app \<Rightarrow> outcome" where
  "gitOperations c projectPath repoName e s =
     (let s1 = updateProgressCallback projectPath OpCheckingGit 45 s in
      issue (SimpleGit projectPath)
        (case simpleGit e of
           Some m \<Rightarrow>
             (let s2 = updateProgressCallback projectPath OpGeneralError 0 s1 in
              (False, [],
               s2\<lparr>status := (status s2)\<lparr>projects :=
                    AList.map_entry projectPath (\<lambda>pr. pr\<lparr>p_error := Some m\<rparr>)
                      (projects (status s2))\<rparr>\<rparr>))
         | None \<Rightarrow>
             issue CheckIsRepo
               (if checkIsRepo e = Some True then
                  setupRemote c projectPath repoName e
                    (updateProgressCallback projectPath OpGitExists 65 s1)
                else
                  (let s2 = updateProgressCallback projectPath OpInitialising 55 s1 in
                   case initGitRepo c repoName projectPath e of
                     (Inl err, rs) \<Rightarrow>
                       issueAll rs (False, [], updateProgressCallback projectPath OpInitError 0 s2)
                   | (Inr u, rs) \<Rightarrow>
                       (let s3 = updateProgressCallback projectPath OpInitialised 65 s2;
                            s4 = s3\<lparr>status := (status s3)\<lparr>projects :=
                                   AList.map_entry projectPath (\<lambda>pr. pr\<lparr>p_hasGitRepo := True\<rparr>)
                                     (projects (status s3))\<rparr>\<rparr>
                        in issueAll rs (setupRemote c projectPath repoName e s4))))))"

text \<open>The part under \<open>// Create repository if it doesn't exist\<close>.\<close>

definition createIfAbsent ::
  "config \<Rightarrow> jsstring \<Rightarrow> jsstring \<Rightarrow> bool \<Rightarrow> wf_env \<Rightarrow> app \<Rightarrow> outcome" where
  "createIfAbsent c projectPath repoName repoExists e s =
     (if \<not> repoExists then
        (let s1 = updateProgressCallback projectPath OpCreatingRemote 25 s in
         issue (CreateRepo repoName)
           (case createGitHubRepo (createRepo e) of
              Inr created \<Rightarrow>
                gitOperations c projectPath repoName e
                  (updateProgressCallback projectPath OpRemoteCreated 35 s1)
            | Inl err \<Rightarrow> (False, [], updateProgressCallback projectPath OpCreateError 0 s1)))
      else
        gitOperations c projectPath repoName e
          (updateProgressCallback projectPath OpRemoteExists 35 s))"

text \<open>
  \<open>syncProjectWithProgress(projectPath, projectName, projectIndex, totalProjects)\<close>; the
  last two arguments enter the display values only. With no configuration loaded,
  \<open>checkGitHubRepo\<close> throws on reading \<open>this.config.username\<close> before it sends a request,
  and the workflow reports the connection error.
\<close>

definition syncProjectWithProgress ::
  "host \<Rightarrow> jsstring \<Rightarrow> jsstring \<Rightarrow> wf_env \<Rightarrow> app \<Rightarrow> outcome" where
  "syncProjectWithProgress h projectPath projectName e s =
     (let s1 = updateProgressCallback projectPath OpCheckingFolder 5 s in
      issue (PathExists projectPath)
        (if \<not> folderExists e then (False, [], s1)
         else
           (let s2 = s1\<lparr>transfer := (transfer s1)\<lparr>currentFile := projectName\<rparr>\<rparr>;
                repoName = sanitizeRepoName (toLowerCase h) projectName;
                s3 = updateProgressCallback projectPath OpCheckingRemote 15 s2
            in if \<not> isOnline (network s3) then
                 (False, [], updateProgressCallback projectPath OpOffline 0 s3)
               else
                 (case config s3 of
                    None \<Rightarrow> (False, [], updateProgressCallback projectPath OpRemoteError 0 s3)
                  | Some c \<Rightarrow>
                      issue (GetRepo (username c) repoName)
                        (case checkGitHubRepo (getRepo e) of
                           Inl err \<Rightarrow>
                             (False, [], updateProgressCallback projectPath OpRemoteError 0 s3)
                         | Inr repoExists \<Rightarrow>
                             createIfAbsent c projectPath repoName repoExists e s3)))))"

section \<open>The debouncer\<close>

text \<open>\<open>Set.prototype.add\<close>: an element that is present is not added again.\<close>

definition setAdd :: "'a \<Rightarrow> 'a list \<Rightarrow> 'a list" where
  "setAdd x xs = (if x \<in> set xs then xs else xs @ [x])"

definition cancelTimer :: "jsstring \<Rightarrow> (jsstring \<times> nat) list \<Rightarrow> (jsstring \<times> nat) list" where
  "cancelTimer projectPath timers = filter (\<lambda>(q, d). q \<noteq> projectPath) timers"

text \<open>
  \<open>debouncedQueueAdd(projectPath)\<close>: the pending timer of the path, if any, is cleared, and
  a timer of 3000 ms is started and stored for the path.
\<close>

definition debouncedQueueAdd :: "jsstring \<Rightarrow> app \<Rightarrow> app" where
  "debouncedQueueAdd projectPath s =
     s\<lparr>debounceTimers :=
         cancelTimer projectPath (debounceTimers s) @ [(projectPath, now s + 3000)]\<rparr>"

text \<open>The callback of that timer.\<close>

definition debounceFired :: "jsstring \<Rightarrow> app \<Rightarrow> app" where
  "debounceFired projectPath s =
     s\<lparr>syncQueue := setAdd projectPath (syncQueue s),
       debounceTimers := cancelTimer projectPath (debounceTimers s),
       status := (status s)\<lparr>projects :=
         AList.map_entry projectPath (\<lambda>pr. pr\<lparr>p_status := Queued\<rparr>) (projects (status s))\<rparr>\<rparr>"

text \<open>
  The passing of time. \<open>dueTimers t s\<close> are the pending timers whose time has come when
  the clock shows \<open>t\<close>, the earliest first and, among equal times, the oldest first;
  \<open>advance t s\<close> moves the clock to \<open>t\<close> and runs their callbacks in that order.
\<close>

definition dueTimers :: "nat \<Rightarrow> app \<Rightarrow> (jsstring \<times> nat) list" where
  "dueTimers t s = sort_key snd (filter (\<lambda>(q, d). d \<le> max t (now s)) (debounceTimers s))"

definition advance :: "nat \<Rightarrow> app \<Rightarrow> app" where
  "advance t s = (fold (\<lambda>(q, d). debounceFired q) (dueTimers t s) s)\<lparr>now := max t (now s)\<rparr>"

text \<open>
  A script of calls \<open>debouncedQueueAdd(p)\<close>, each at a time \<open>t\<close>, run against the clock:
  the result lists the timers that fired on the way, each with the time at which it
  fired, and the state after the last call. \<open>settle T\<close> then lets the clock reach \<open>T\<close>.
\<close>

fun runCalls :: "(nat \<times> jsstring) list \<Rightarrow> app \<Rightarrow> (jsstring \<times> nat) list \<times> app" where
  "runCalls [] s = ([], s)"
| "runCalls ((t, p) # cs) s =
     (case runCalls cs (debouncedQueueAdd p (advance t s)) of
        (fired, s') \<Rightarrow> (dueTimers t s @ fired, s'))"

definition settle :: "nat \<Rightarrow> (jsstring \<times> nat) list \<times> app \<Rightarrow> (jsstring \<times> nat) list \<times> app" where
  "settle T x = (case x of (fired, s) \<Rightarrow> (fired @ dueTimers T s, advance T s))"

section \<open>The change detector\<close>

text \<open>What the file system shows during one iteration of \<open>checkFolderModifications\<close>:
  whether the folder exists, its modification time (\<open>None\<close> when \<open>fs.stat\<close> rejects) and
  whether it holds a \<open>.git\<close> entry.\<close>

record fs_obs =
  obs_exists :: bool
  obs_mtime :: "nat option"
  obs_hasGit :: bool

text \<open>The statements after the loop of \<open>checkFolderModifications\<close>.\<close>

definition checkFolderModifications_end :: "app \<Rightarrow> app" where
  "checkFolderModifications_end s =
     updateStatus Monitoring (s\<lparr>stats := (stats s)\<lparr>currentPath := None\<rparr>\<rparr>)"

text \<open>
  The call of \<open>checkFolderModifications\<close> up to its first \<open>await\<close>: nothing happens while a
  batch is running; over an empty map the function runs to its end at once; otherwise a
  pass is suspended before its first entry.
\<close>

definition checkFolderModifications_begin :: "app \<Rightarrow> app" where
  "checkFolderModifications_begin s =
     (if isSyncing (status s) then s
      else if projectStates s = [] then checkFolderModifications_end s
      else s\<lparr>detections := detections s @ [0]\<rparr>)"

text \<open>
  One iteration of the loop, on the entry at position \<open>i\<close> of \<open>projectStates\<close>, for the
  pass number \<open>k\<close>. A deleted entry moves the iterators that have passed it one step
  back; otherwise the iterator of this pass moves on. The awaits inside one iteration
  are taken as one step.
\<close>

definition checkFolderModifications_iteration :: "nat \<Rightarrow> nat \<Rightarrow> fs_obs \<Rightarrow> app \<Rightarrow> app" where
  "checkFolderModifications_iteration k i obs s =
     (case projectStates s ! i of (projectPath, mtime) \<Rightarrow>
        if \<not> obs_exists obs then
          s\<lparr>projectStates := AList.delete projectPath (projectStates s),
            status := (status s)\<lparr>projects := AList.delete projectPath (projects (status s))\<rparr>,
            detections := map (\<lambda>c. if i < c then c - 1 else c) (detections s)\<rparr>
        else
          (let s1 = updateStatus Monitoring (s\<lparr>stats := (stats s)\<lparr>currentPath := Some projectPath\<rparr>\<rparr>);
               s2 = s1\<lparr>detections := (detections s1)[k := Suc i]\<rparr>
           in case obs_mtime obs of
                None \<Rightarrow> s2
              | Some currentMtime \<Rightarrow>
                  (let s3 =
                     (case map_of (projects (status s2)) projectPath of
                        None \<Rightarrow> s2
                      | Some project \<Rightarrow>
                          (let seen = project\<lparr>p_hasGitRepo := obs_hasGit obs, p_lastCheck := now s2\<rparr>;
                               put = (\<lambda>pr. s2\<lparr>status := (status s2)\<lparr>projects :=
                                        AList.update projectPath pr (projects (status s2))\<rparr>\<rparr>)
                           in if \<not> obs_hasGit obs then
                                debouncedQueueAdd projectPath
                                  (put (seen\<lparr>p_status := NeedsRepo, p_message := MsgNeedsRepo\<rparr>))
                              else if mtime < currentMtime then
                                debouncedQueueAdd projectPath
                                  (put (seen\<lparr>p_lastModified := currentMtime, p_status := Changed,
                                             p_message := MsgChanged\<rparr>))
                              else put (seen\<lparr>p_status := Ready, p_message := MsgUpToDate\<rparr>)))
                   in if mtime < currentMtime then
                        s3\<lparr>projectStates :=
                             AList.update projectPath currentMtime (projectStates s3)\<rparr>
                      else s3)))"

text \<open>
  The pass number \<open>k\<close> is resumed: it runs its next iteration, or, with its iterator at
  the end of the map, the statements after the loop, and is then gone.
\<close>

definition checkFolderModifications_resume :: "nat \<Rightarrow> fs_obs \<Rightarrow> app \<Rightarrow> app" where
  "checkFolderModifications_resume k obs s =
     (if length (detections s) \<le> k then s
      else
        (let i = detections s ! k in
         if i < length (projectStates s) then checkFolderModifications_iteration k i obs s
         else checkFolderModifications_end
                (s\<lparr>detections := take k (detections s) @ drop (Suc k) (detections s)\<rparr>)))"

section \<open>The sync queue and the scheduler\<close>

text \<open>
  \<open>processQueue\<close> up to its loop: the guard, the busy flag, the snapshot
  \<open>Array.from(this.syncQueue)\<close>, the clearing of the queue and the reset of the run
  statistics and the transfer statistics.
\<close>

definition processQueue_begin :: "app \<Rightarrow> app" where
  "processQueue_begin s =
     (if isSyncing (status s) \<or> syncQueue s = [] then s
      else
        updateStatus PhaseSyncing
          (s\<lparr>status := (status s)\<lparr>isSyncing := True\<rparr>,
             syncQueue := [],
             stats := (stats s)\<lparr>startTime := Some (now s), completedProjects := 0,
                                failedProjects := 0,
                                totalProjects := length (syncQueue s)\<rparr>,
             transfer := \<lparr>totalFiles = 0, currentFile = [], uploadedFiles = 0\<rparr>,
             running := Some \<lparr>projectPaths = syncQueue s, index = 0\<rparr>\<rparr>))"

text \<open>
  One iteration of the loop of \<open>processQueue\<close>, for the project at \<open>index\<close>: the record is
  marked, the workflow runs, and its boolean decides the update of the statistics and of
  the record; then the index moves on. The awaits inside one iteration are taken as one
  step. The result carries the boolean and the requests of the workflow.
\<close>

definition processQueue_iteration :: "host \<Rightarrow> batch \<Rightarrow> wf_env \<Rightarrow> app \<Rightarrow> outcome" where
  "processQueue_iteration h b e s =
     (let projectPath = projectPaths b ! index b;
          projectName = basename h projectPath;
          s1 = updateStatus PhaseSyncing
                 (s\<lparr>stats := (stats s)\<lparr>currentProject := Some projectName,
                                       currentPath := Some projectPath\<rparr>\<rparr>);
          s2 = s1\<lparr>status := (status s1)\<lparr>projects :=
                 AList.map_entry projectPath
                   (\<lambda>pr. pr\<lparr>p_status := Syncing, p_currentOperation := OpStarting, p_progress := 0\<rparr>)
                   (projects (status s1))\<rparr>\<rparr>
      in case syncProjectWithProgress h projectPath projectName e s2 of
           (success, rs, s3) \<Rightarrow>
             (let s4 =
                (if success then
                   (let s5 = updateStatus PhaseSyncing
                          (s3\<lparr>stats := (stats s3)
                                 \<lparr>completedProjects := completedProjects (stats s3) + 1\<rparr>,
                              transfer := (transfer s3)
                                 \<lparr>uploadedFiles := uploadedFiles (transfer s3) + 1\<rparr>\<rparr>)
                    in s5\<lparr>status := (status s5)\<lparr>projects :=
                         AList.map_entry projectPath
                           (\<lambda>pr. pr\<lparr>p_status := Synced, p_lastCheck := now s5,
                                    p_message := MsgSynced, p_progress := 100,
                                    p_currentOperation := OpFinished\<rparr>)
                           (projects (status s5))\<rparr>\<rparr>)
                 else
                   s3\<lparr>stats := (stats s3)\<lparr>failedProjects := failedProjects (stats s3) + 1\<rparr>,
                      status := (status s3)\<lparr>projects :=
                        AList.map_entry projectPath
                          (\<lambda>pr. pr\<lparr>p_status := Error, p_message := MsgSyncError,
                                   p_progress := 0, p_currentOperation := OpFailed\<rparr>)
                          (projects (status s3))\<rparr>\<rparr>)
              in (success, rs, s4\<lparr>running := Some (b\<lparr>index := index b + 1\<rparr>)\<rparr>)))"

text \<open>The statements after the loop; the busy flag falls and the batch is gone.\<close>

definition processQueue_end :: "app \<Rightarrow> app" where
  "processQueue_end s =
     (let s1 = updateStatus Monitoring s in
      s1\<lparr>status := (status s1)\<lparr>isSyncing := False\<rparr>,
         stats := (stats s1)\<lparr>currentProject := None, currentPath := None\<rparr>,
         running := None\<rparr>)"

text \<open>The suspended batch is resumed: its next iteration, or its end.\<close>

definition processQueue_resume :: "host \<Rightarrow> wf_env \<Rightarrow> app \<Rightarrow> outcome" where
  "processQueue_resume h e s =
     (case running s of
        None \<Rightarrow> (False, [], s)
      | Some b \<Rightarrow>
          if index b < length (projectPaths b) then processQueue_iteration h b e s
          else (False, [], processQueue_end s))"


text \<open>The callback of the 10 s interval of \<open>startSyncProcessor\<close>.\<close>

definition processTick :: "app \<Rightarrow> app" where
  "processTick s =
     (if syncQueue s \<noteq> [] \<and> \<not> isSyncing (status s) then processQueue_begin s else s)"

text \<open>\<open>for (const projectPath of this.status.projects.keys()) this.syncQueue.add(projectPath)\<close>\<close>

definition enqueueAll :: "app \<Rightarrow> app" where
  "enqueueAll s =
     s\<lparr>syncQueue := fold setAdd (map fst (projects (status s))) (syncQueue s)\<rparr>"

text \<open>\<open>manualSync\<close> up to the loop of the \<open>processQueue\<close> that it calls.\<close>

definition manualSync :: "app \<Rightarrow> app" where
  "manualSync s =
     (if config s = None then s
      else if isSyncing (status s) then s
      else processQueue_begin (enqueueAll s))"

text \<open>
  The body of the loop of \<open>scanProjects\<close> for an entry \<open>item\<close> of a watched folder that is
  a directory, with the modification time and the presence of \<open>.git\<close> that the file
  system shows.
\<close>

definition scanProjects_item :: "jsstring \<Rightarrow> jsstring \<Rightarrow> nat \<Rightarrow> bool \<Rightarrow> app \<Rightarrow> app" where
  "scanProjects_item projectPath item mtime hasGitRepo s =
     (let s1 = updateStatus Scanning (s\<lparr>stats := (stats s)\<lparr>currentPath := Some projectPath\<rparr>\<rparr>);
          project = \<lparr>p_name = item, p_path = projectPath, p_lastModified = mtime,
                     p_lastCheck = now s1, p_hasGitRepo = hasGitRepo,
                     p_status = (if hasGitRepo then Ready else NeedsRepo),
                     p_message = (if hasGitRepo then MsgReady else MsgNeedsRepo),
                     p_progress = 0, p_currentOperation = OpNone, p_error = None\<rparr>;
          s2 = s1\<lparr>projectStates := AList.update projectPath mtime (projectStates s1),
                  status := (status s1)\<lparr>projects :=
                    AList.update projectPath project (projects (status s1))\<rparr>\<rparr>
      in if hasGitRepo then s2 else s2\<lparr>syncQueue := setAdd projectPath (syncQueue s2)\<rparr>)"

section \<open>The event loop\<close>

text \<open>
  The state of a new \<open>GitAutoSync\<close> object, as the constructor leaves it, with the clock
  at \<open>t\<close> and the configuration \<open>cfg\<close> that \<open>loadConfig\<close> found.
\<close>

definition initial :: "config option \<Rightarrow> nat \<Rightarrow> app" where
  "initial cfg t =
     \<lparr>config = cfg, isRunning = False, now = t, debounceTimers = [],
      network = \<lparr>isOnline = True, lastCheck = t\<rparr>,
      transfer = \<lparr>totalFiles = 0, currentFile = [], uploadedFiles = 0\<rparr>,
      projectStates = [], syncQueue = [],
      stats = \<lparr>totalProjects = 0, completedProjects = 0, failedProjects = 0,
               startTime = None, currentProject = None, currentPath = None\<rparr>,
      status = \<lparr>phase = Idle, st_isRunning = False, isSyncing = False, projects = [],
                st_currentPath = None\<rparr>,
      detections = [], running = None\<rparr>"

text \<open>
  What the event loop can run next while the system is started: time passes and due
  debounce timers fire; the scan registers a directory; the 5 s interval calls the change
  detector; a suspended detection pass goes on; the 10 s interval calls the processor; the
  user asks for a manual sync; the suspended batch goes on; the network monitor stores the
  result of a probe; a deferred \<open>updateStatus('monitoring', ...)\<close> runs. The intervals,
  the delays and the collaborators may take any time, so these events can come in any
  order. Starting and stopping the system are not among them.
\<close>

datatype event =
    Advance nat
  | ScanItem jsstring jsstring nat bool
  | DetectTick
  | ResumeDetect nat fs_obs
  | ProcessTick
  | ManualSync
  | ResumeBatch wf_env
  | NetworkProbe bool
  | RefreshStatus

fun step :: "host \<Rightarrow> event \<Rightarrow> app \<Rightarrow> app" where
  "step h (Advance t) s = advance t s"
| "step h (ScanItem projectPath item mtime hasGitRepo) s =
     scanProjects_item projectPath item mtime hasGitRepo s"
| "step h DetectTick s = checkFolderModifications_begin s"
| "step h (ResumeDetect k obs) s = checkFolderModifications_resume k obs s"
| "step h ProcessTick s = processTick s"
| "step h ManualSync s = manualSync s"
| "step h (ResumeBatch e) s = snd (snd (processQueue_resume h e s))"
| "step h (NetworkProbe b) s = s\<lparr>network := \<lparr>isOnline = b, lastCheck = now s\<rparr>\<rparr>"
| "step h RefreshStatus s = updateStatus Monitoring s"

definition run :: "host \<Rightarrow> event list \<Rightarrow> app \<Rightarrow> app" where
  "run h evs s = fold (step h) evs s"

text \<open>A detection pass is suspended partway; a batch is in progress.\<close>

definition detecting :: "app \<Rightarrow> bool" where
  "detecting s \<longleftrightarrow> detections s \<noteq> []"

definition batchRunning :: "app \<Rightarrow> bool" where
  "batchRunning s \<longleftrightarrow> isSyncing (status s) \<and> running s \<noteq> None"

section \<open>The status snapshot\<close>

text \<open>
  The values that \<open>getDetailedStatus\<close> reads and the model does not track: the display
  text and the floating-point progress of \<open>this.status\<close>, the upload speed, and the
  readings of \<open>process.memoryUsage()\<close> and \<open>process.uptime()\<close>. \<open>'n\<close> stands for a
  JavaScript number, \<open>'m\<close> for the memory usage object.
\<close>

record ('n, 'm) ambient =
  statusMessage :: jsstring
  statusProgress :: 'n
  uploadSpeed :: 'n
  memoryUsage :: 'm
  uptime :: 'n

record ('n, 'm) snapshot =
  snap_phase :: phase
  snap_message :: jsstring
  snap_progress :: 'n
  snap_isRunning :: bool
  snap_isSyncing :: bool
  snap_networkStatus :: networkStatus
  snap_transferStats :: transferStats
  snap_uploadSpeed :: 'n
  snap_currentPath :: "jsstring option"
  snap_stats :: stats
  snap_config :: "jsstring option"
  snap_projects :: "project list"
  snap_memoryUsage :: 'm
  snap_uptime :: 'n

text \<open>
  \<open>getDetailedStatus()\<close>: the fields of \<open>this.status\<close>, then \<open>stats\<close>, then \<open>config\<close>, which
  is \<open>null\<close> or an object with the single field \<open>username\<close>, then the list of the
  projects, where an absent or empty \<open>error\<close> becomes \<open>null\<close>.
\<close>

definition getDetailedStatus :: "('n, 'm) ambient \<Rightarrow> app \<Rightarrow> ('n, 'm) snapshot" where
  "getDetailedStatus a s =
     \<lparr>snap_phase = phase (status s),
      snap_message = statusMessage a,
      snap_progress = statusProgress a,
      snap_isRunning = st_isRunning (status s),
      snap_isSyncing = isSyncing (status s),
      snap_networkStatus = network s,
      snap_transferStats = transfer s,
      snap_uploadSpeed = uploadSpeed a,
      snap_currentPath = st_currentPath (status s),
      snap_stats = stats s,
      snap_config = (case config s of None \<Rightarrow> None | Some c \<Rightarrow> Some (username c)),
      snap_projects =
        map (\<lambda>(path, project).
               project\<lparr>p_path := path,
                       p_error := (case p_error project of
                                     None \<Rightarrow> None
                                   | Some m \<Rightarrow> if m = [] then None else Some m)\<rparr>)
          (projects (status s)),
      snap_memoryUsage = memoryUsage a,
      snap_uptime = uptime a\<rparr>"

section \<open>Notions used in the statements\<close>

text \<open>The pushes among the requests of a run, in order.\<close>

definition pushes :: "request list \<Rightarrow> request list" where
  "pushes rs = filter (\<lambda>r. r = Push \<or> r = PushUpstream) rs"

text \<open>
  An outcome either fails without a push, or has the boolean and the pushes of the push
  step.
\<close>

definition viaPush :: "jsstring \<Rightarrow> wf_env \<Rightarrow> app \<Rightarrow> outcome \<Rightarrow> bool" where
  "viaPush p e s x \<longleftrightarrow>
     (\<not> fst x \<and> pushes (fst (snd x)) = []) \<or>
     (fst x = fst (pushChanges p True e s) \<and>
      pushes (fst (snd x)) = fst (snd (pushChanges p True e s)))"

text \<open>
  The paths at which workflows started: each run of the workflow begins with a
  \<open>PathExists\<close> request for its path.
\<close>

definition workflowStarts :: "request list \<Rightarrow> jsstring list" where
  "workflowStarts rs = concat (map (\<lambda>r. case r of PathExists x \<Rightarrow> [x] | _ \<Rightarrow> []) rs)"


text \<open>
  What a run of the workflow for the path \<open>p\<close> leaves as it is: every field but
  \<open>transfer\<close> and \<open>status\<close>, and of \<open>status\<close> the busy flag, the keys of the registry and
  the records of the other paths.
\<close>

definition frame :: "jsstring \<Rightarrow> app \<Rightarrow> app \<Rightarrow> bool" where
  "frame p s s' \<longleftrightarrow>
     config s' = config s \<and> isRunning s' = isRunning s \<and> now s' = now s \<and>
     debounceTimers s' = debounceTimers s \<and> network s' = network s \<and>
     projectStates s' = projectStates s \<and> syncQueue s' = syncQueue s \<and>
     stats s' = stats s \<and> detections s' = detections s \<and> running s' = running s \<and>
     isSyncing (status s') = isSyncing (status s) \<and>
     map fst (projects (status s')) = map fst (projects (status s)) \<and>
     (\<forall>q. q \<noteq> p \<longrightarrow> map_of (projects (status s')) q = map_of (projects (status s)) q)"

definition framed :: "jsstring \<Rightarrow> app \<Rightarrow> outcome \<Rightarrow> bool" where
  "framed p s x \<longleftrightarrow> frame p s (snd (snd x))"

text \<open>
  The batch is running before each of the events; the last of them may be the step that
  ends it.
\<close>

fun batchBefore :: "host \<Rightarrow> event list \<Rightarrow> app \<Rightarrow> bool" where
  "batchBefore h [] s = True"
| "batchBefore h (ev # evs) s = (batchRunning s \<and> batchBefore h evs (step h ev s))"

text \<open>
  A burst: calls in the order of time, each less than 3000 ms after the one before it.
  \<open>timersOf p\<close> keeps the entries for the path \<open>p\<close> of a list of timers.
\<close>

fun burst :: "nat list \<Rightarrow> bool" where
  "burst [] = True"
| "burst [t] = True"
| "burst (t # u # ts) = (t \<le> u \<and> u < t + 3000 \<and> burst (u # ts))"

definition timersOf :: "jsstring \<Rightarrow> (jsstring \<times> nat) list \<Rightarrow> (jsstring \<times> nat) list" where
  "timersOf p xs = filter (\<lambda>(q, d). q = p) xs"

section \<open>Sample inputs\<close>

text \<open>
  A configuration; answers of the collaborators for a project whose remote is absent,
  whose creation meets a conflict, whose folder is a repository with two changed files
  and whose first push fails for a missing upstream; the same with the folder gone; and
  states of the system: new, with two projects without a repository registered and
  queued, with a detection pass suspended, with a batch running, and idle with one
  project.
\<close>

definition sampleConfig :: config where
  "sampleConfig = \<lparr>username = js ''octocat'', token = js ''ghp_secret'',
     watchPaths = [js ''/home/u/projects''], ignoredPatterns = [js ''**/node_modules/**'']\<rparr>"

definition sampleEnv :: wf_env where
  "sampleEnv = \<lparr>folderExists = True,
     getRepo = Rejected (Some 404) None (js ''Request failed with status code 404''),
     createRepo = Rejected (Some 422) (Some (js ''Repository creation failed.''))
                    (js ''Request failed with status code 422''),
     simpleGit = None, checkIsRepo = Some True, initStep = (\<lambda>x. None), addRemote = None,
     gitStatus = Inr 2, addAll = None, commit = None,
     push = Some (js ''fatal: The current branch main has no upstream branch.''),
     pushUpstream = None\<rparr>"

definition missingEnv :: wf_env where
  "missingEnv = sampleEnv\<lparr>folderExists := False\<rparr>"

text \<open>
  The same answers for a project named \<open>upstream-tools\<close> whose first push fails because
  the host name does not resolve; git prints the address of the remote in the message.
\<close>

definition flakyEnv :: wf_env where
  "flakyEnv = sampleEnv\<lparr>push := Some (js ''fatal: unable to access '' @ [0x27] @
       js ''https://github.com/octocat/upstream-tools.git/'' @ [0x27] @
       js '': Could not resolve host: github.com'')\<rparr>"

definition sampleStart :: app where
  "sampleStart = initial (Some sampleConfig) 0"

definition sampleQueued :: app where
  "sampleQueued =
     run posixHost [ScanItem (js ''/w/a'') (js ''a'') 10 False,
                    ScanItem (js ''/w/b'') (js ''b'') 20 False] sampleStart"

definition sampleDetecting :: app where
  "sampleDetecting = run posixHost [ScanItem (js ''/w/a'') (js ''a'') 10 False, DetectTick] sampleStart"

definition sampleBusy :: app where
  "sampleBusy = run posixHost [ScanItem (js ''/w/a'') (js ''a'') 10 False, ProcessTick] sampleStart"

definition sampleIdle :: app where
  "sampleIdle = run posixHost [ScanItem (js ''/w/a'') (js ''a'') 10 True] sampleStart"

section \<open>Unfolding rules\<close>

lemmas san_defs = sanitizeRepoName_def js_def toLowerCase_ascii_def isWhiteSpace_def stripInvalid_def trimSeparators_def isRepoChar_def isSeparator_def isAlnumLower_def

lemmas wf_defs = syncProjectWithProgress_def createIfAbsent_def gitOperations_def setupRemote_def
  commitChanges_def pushChanges_def issue_def issueAll_def updateProgressCallback_def updateStatus_def
  checkGitHubRepo_def createGitHubRepo_def initGitRepo_def Let_def

lemmas sched_defs = processQueue_begin_def processQueue_iteration_def processQueue_end_def
  processQueue_resume_def processTick_def manualSync_def enqueueAll_def
  checkFolderModifications_begin_def checkFolderModifications_end_def
  checkFolderModifications_resume_def checkFolderModifications_iteration_def
  debouncedQueueAdd_def debounceFired_def cancelTimer_def advance_def dueTimers_def
  detecting_def batchRunning_def

lemmas detect_defs = checkFolderModifications_resume_def checkFolderModifications_iteration_def
  checkFolderModifications_end_def checkFolderModifications_begin_def debouncedQueueAdd_def
  updateStatus_def Let_def

lemmas sample_defs = sampleDetecting_def sampleBusy_def sampleIdle_def flakyEnv_def
  sampleConfig_def sampleEnv_def missingEnv_def sampleStart_def sampleQueued_def
  initial_def posixHost_def run_def scanProjects_item_def setAdd_def basename_posix_def

section \<open>Repository names\<close>

lemma replaceWhiteSpace_id: "\<forall>c\<in>set s. \<not> isWhiteSpace c \<Longrightarrow> replaceWhiteSpace s = s"
  by (induction s) auto

lemma dropWhile_hd_id: "s \<noteq> [] \<Longrightarrow> \<not> P (hd s) \<Longrightarrow> dropWhile P s = s"
  by (cases s) auto

lemma trimSeparators_id:
  "s \<noteq> [] \<Longrightarrow> \<not> isSeparator (hd s) \<Longrightarrow> \<not> isSeparator (last s) \<Longrightarrow> trimSeparators s = s"
  by (simp add: trimSeparators_def dropWhile_hd_id hd_rev)

lemma set_trimSeparators: "set (trimSeparators s) \<subseteq> set s"
  by (auto simp: trimSeparators_def dest!: set_dropWhileD)

lemma dropWhile_all: "\<forall>x\<in>set xs. P x \<Longrightarrow> dropWhile P xs = []"
  by (induction xs) auto

lemma rev_dropWhile_rev_prefix:
  "t = rev (dropWhile P (rev t)) @ rev (takeWhile P (rev t))"
  by (metis rev_append rev_rev_ident takeWhile_dropWhile_id)

lemma hd_trimSeparators:
  assumes "trimSeparators s \<noteq> []"
  shows "\<not> isSeparator (hd (trimSeparators s))"
proof -
  let ?t = "dropWhile isSeparator s"
  from assms have ne: "?t \<noteq> []" unfolding trimSeparators_def by (cases "dropWhile isSeparator s") auto
  have "hd ?t = hd (trimSeparators s)"
    using assms rev_dropWhile_rev_prefix [of ?t isSeparator]
    unfolding trimSeparators_def by (metis hd_append2)
  with ne show ?thesis by (metis hd_dropWhile)
qed

lemma last_trimSeparators: "trimSeparators s \<noteq> [] \<Longrightarrow> \<not> isSeparator (last (trimSeparators s))"
  by (simp add: trimSeparators_def last_rev hd_dropWhile)

text \<open>
  What holds for every name: the result is made of code units of \<open>[a-z0-9\-_.]\<close>, has at
  most 100 of them and does not begin with a separator; it does not end with one either
  as long as the trimmed string has at most 100 code units.
\<close>

lemma sanitize_charset: "set (sanitizeRepoName lower name) \<subseteq> Collect isRepoChar"
proof -
  have "set (sanitizeRepoName lower name) \<subseteq> set (stripInvalid (replaceWhiteSpace (lower name)))"
    unfolding sanitizeRepoName_def using set_trimSeparators set_take_subset by (rule order_trans[rotated])
  then show ?thesis by (auto simp: stripInvalid_def)
qed

lemma sanitize_length: "length (sanitizeRepoName lower name) \<le> 100"
  by (simp add: sanitizeRepoName_def)

lemma sanitize_hd: "sanitizeRepoName lower name \<noteq> [] \<Longrightarrow> \<not> isSeparator (hd (sanitizeRepoName lower name))"
  unfolding sanitizeRepoName_def using hd_trimSeparators by (auto simp: hd_take)

lemma sanitize_last_short: 
  "length (trimSeparators (stripInvalid (replaceWhiteSpace (lower name)))) \<le> 100 \<Longrightarrow>
   sanitizeRepoName lower name \<noteq> [] \<Longrightarrow> \<not> isSeparator (last (sanitizeRepoName lower name))"
  unfolding sanitizeRepoName_def using last_trimSeparators by auto

lemma sanitize_empty:
  assumes "\<forall>c \<in> set (replaceWhiteSpace (lower name)). \<not> isAlnumLower c"
  shows "sanitizeRepoName lower name = []"
proof -
  have "\<forall>c \<in> set (stripInvalid (replaceWhiteSpace (lower name))). isSeparator c"
    using assms by (auto simp: stripInvalid_def isRepoChar_def)
  then have eq: "dropWhile isSeparator (stripInvalid (replaceWhiteSpace (lower name))) = []"
    by (rule dropWhile_all)
  show ?thesis unfolding sanitizeRepoName_def trimSeparators_def eq by simp
qed

text \<open>
  Claim C1: for every name, \<open>sanitizeRepoName\<close> gives a string over \<open>[a-z0-9\-_.]\<close> of
  length at most 100 with no leading and no trailing separator, also when the trimmed
  string is longer than 100 code units and is cut. The code trims first and cuts
  afterwards, so the cut can end on a separator: for the name made of 99 letters \<open>a\<close>
  followed by \<open>-b\<close>, the trimmed string is the name itself, 101 code units long, and the
  result is its first 100 code units, which end in a hyphen.
\<close>

theorem sanitizeRepoName_truncation_keeps_separator:
  "sanitizeRepoName toLowerCase_ascii (replicate 99 0x61 @ js ''-b'') = replicate 99 0x61 @ js ''-'' \<and>
   length (sanitizeRepoName toLowerCase_ascii (replicate 99 0x61 @ js ''-b'')) = 100 \<and>
   isSeparator (last (sanitizeRepoName toLowerCase_ascii (replicate 99 0x61 @ js ''-b'')))"
proof -
  let ?n = "replicate 99 (0x61::nat) @ js ''-b''"
  have 1: "toLowerCase_ascii ?n = ?n" by (simp add: toLowerCase_ascii_def js_def)
  have 2: "replaceWhiteSpace ?n = ?n"
    by (rule replaceWhiteSpace_id) (auto simp: js_def isWhiteSpace_def)
  have 3: "stripInvalid ?n = ?n"
    by (simp add: stripInvalid_def js_def isRepoChar_def isSeparator_def isAlnumLower_def)
  have 4: "trimSeparators ?n = ?n"
    by (rule trimSeparators_id) (simp_all add: js_def isSeparator_def hd_append)
  have 5: "sanitizeRepoName toLowerCase_ascii ?n = replicate 99 0x61 @ js ''-''"
    unfolding sanitizeRepoName_def 1 2 3 4 by (simp add: js_def)
  show ?thesis unfolding 5 by (simp add: js_def isSeparator_def)
qed

section \<open>The workflow\<close>

lemma pushChanges_ok:
  "fst (pushChanges p hc e s) =
     (case push e of None \<Rightarrow> True
      | Some m \<Rightarrow> (str_includes m (js ''upstream'') \<or> str_includes m (js ''no upstream''))
                  \<and> pushUpstream e = None)"
  by (simp add: pushChanges_def issue_def Let_def split: option.splits)

lemma pushChanges_requests:
  "fst (snd (pushChanges p hc e s)) =
     Push # (case push e of None \<Rightarrow> []
             | Some m \<Rightarrow> if str_includes m (js ''upstream'') \<or> str_includes m (js ''no upstream'')
                         then [PushUpstream] else [])"
  by (simp add: pushChanges_def issue_def Let_def split: option.splits)

lemma viaPush_pushChanges: "viaPush p e s (pushChanges p hc e s')"
  by (simp add: viaPush_def pushChanges_ok pushChanges_requests pushes_def split: option.splits)

lemma viaPush_fail: "viaPush p e s (False, [], s')"
  by (simp add: viaPush_def pushes_def)

lemma viaPush_issue: "viaPush p e s x \<Longrightarrow> r \<noteq> Push \<Longrightarrow> r \<noteq> PushUpstream \<Longrightarrow> viaPush p e s (issue r x)"
  by (cases x) (simp add: viaPush_def issue_def pushes_def)

lemma viaPush_issueAll:
  "viaPush p e s x \<Longrightarrow> Push \<notin> set rs \<Longrightarrow> PushUpstream \<notin> set rs \<Longrightarrow> viaPush p e s (issueAll rs x)"
  by (cases x) (auto simp add: viaPush_def issueAll_def pushes_def filter_empty_conv)

lemma viaPush_commitChanges: "viaPush p e s (commitChanges p e s')"
  unfolding commitChanges_def Let_def
  by (auto intro!: viaPush_issue viaPush_pushChanges viaPush_fail split: sum.splits option.splits)

lemma viaPush_setupRemote: "viaPush p e s (setupRemote c p n e s')"
  unfolding setupRemote_def Let_def
  by (auto intro!: viaPush_issue viaPush_commitChanges)

lemma awaitAll_subset: "set (snd (awaitAll xs)) \<subseteq> fst ` set xs"
  by (induction xs rule: awaitAll.induct) (auto split: prod.splits)

lemma initGitRepo_requests:
  "r \<in> set (snd (initGitRepo c n p e)) \<Longrightarrow> r \<noteq> Push \<and> r \<noteq> PushUpstream"
  unfolding initGitRepo_def
  using awaitAll_subset [of "[(Init, initStep e StepInit),
         (AddConfigName (username c), initStep e StepConfigName),
         (AddConfigEmail (username c), initStep e StepConfigEmail),
         (WriteIgnoreFile p (ignoredPatterns c), initStep e StepWriteIgnore),
         (AddAll, initStep e StepAdd),
         (CommitInitial, initStep e StepCommit),
         (BranchMain, initStep e StepBranch),
         (AddRemote (token c) (username c) n, initStep e StepAddRemote)]"]
  by (auto split: prod.splits option.splits)

lemma viaPush_gitOperations: "viaPush p e s (gitOperations c p n e s')"
proof -
  have no: "Push \<notin> set (snd (initGitRepo c n p e))" "PushUpstream \<notin> set (snd (initGitRepo c n p e))"
    using initGitRepo_requests by blast+
  show ?thesis
    unfolding gitOperations_def Let_def using no
    by (auto intro!: viaPush_issue viaPush_issueAll viaPush_setupRemote viaPush_fail
             split: option.splits prod.splits sum.splits)
qed

lemma viaPush_createIfAbsent: "viaPush p e s (createIfAbsent c p n ex e s')"
  unfolding createIfAbsent_def Let_def
  by (auto intro!: viaPush_issue viaPush_gitOperations viaPush_fail split: sum.splits)

lemma viaPush_syncProjectWithProgress: "viaPush p e s (syncProjectWithProgress h p name e s')"
  unfolding syncProjectWithProgress_def Let_def
  by (auto intro!: viaPush_issue viaPush_createIfAbsent viaPush_fail split: sum.splits option.splits)

lemma updateProgressCallback_network [simp]: "network (updateProgressCallback p op n s) = network s"
  by (simp add: updateProgressCallback_def updateStatus_def)

lemma updateProgressCallback_config [simp]: "config (updateProgressCallback p op n s) = config s"
  by (simp add: updateProgressCallback_def updateStatus_def)

lemma gitOperations_first:
  "\<exists>ok rs s'. gitOperations c p n e s = (ok, SimpleGit p # rs, s')"
  by (auto simp: gitOperations_def issue_def issueAll_def Let_def
           split: option.splits prod.splits sum.splits)

text \<open>
  Claim C7, as amended: in a run of the workflow that reaches the push step, a first push
  that fails with a message containing the text \<open>upstream\<close>, as the message of git for a
  branch without an upstream does, is followed by exactly one retry with \<open>push -u\<close>, and
  the workflow returns true exactly when the retry succeeds; a failure whose message
  does not contain that text is followed by no retry, and the workflow returns false. The
  pushes of the run are \<open>[Push, PushUpstream]\<close> in the first case and \<open>[Push]\<close> otherwise.
\<close>

theorem push_retries_once_when_message_has_upstream:
  "case syncProjectWithProgress h p name e s of (ok, rs, s') \<Rightarrow>
     Push \<in> set rs \<longrightarrow>
       (case push e of
          None \<Rightarrow> pushes rs = [Push] \<and> ok
        | Some m \<Rightarrow>
            if str_includes m (js ''upstream'') \<or> str_includes m (js ''no upstream'')
            then pushes rs = [Push, PushUpstream] \<and> (ok \<longleftrightarrow> pushUpstream e = None)
            else pushes rs = [Push] \<and> \<not> ok)"
proof -
  obtain ok rs s' where x: "syncProjectWithProgress h p name e s = (ok, rs, s')"
    by (cases "syncProjectWithProgress h p name e s") auto
  have v: "viaPush p e s (ok, rs, s')"
    using viaPush_syncProjectWithProgress [of p e s h name s] x by simp
  have "Push \<in> set rs \<Longrightarrow> pushes rs \<noteq> []"
    by (auto simp: pushes_def filter_empty_conv)
  with v show ?thesis
    unfolding x
    by (auto simp: viaPush_def pushChanges_ok pushChanges_requests split: option.splits)
qed

theorem push_retries_once_when_message_has_upstream_witness:
  "push sampleEnv = Some (js ''fatal: The current branch main has no upstream branch.'') \<and>
   str_includes (js ''fatal: The current branch main has no upstream branch.'') (js ''upstream'') \<and>
   pushUpstream sampleEnv = None \<and>
   (case syncProjectWithProgress posixHost (js ''/w/My App'') (js ''My App'') sampleEnv sampleStart of
      (ok, rs, s') \<Rightarrow> Push \<in> set rs \<and> pushes rs = [Push, PushUpstream] \<and> ok)"
  using push_retries_once_when_message_has_upstream [where h = posixHost and p = "js ''/w/My App''"
      and name = "js ''My App''" and e = sampleEnv and s = sampleStart]
  by (simp add: wf_defs sample_defs san_defs pushes_def)

text \<open>
  Against claim C7 as stated: the source takes an error for a missing upstream when its
  message contains \<open>upstream\<close>. For the project \<open>upstream-tools\<close>, a first push that fails
  because the host name does not resolve carries the address of the remote, and with it
  that text, in its message: the failure is not a missing upstream, yet the retry with
  \<open>push -u\<close> is made, and the workflow returns true when the retry succeeds.
\<close>

theorem push_retry_on_other_failure_counterexample:
  "push flakyEnv = Some (js ''fatal: unable to access '' @ [0x27] @
       js ''https://github.com/octocat/upstream-tools.git/'' @ [0x27] @
       js '': Could not resolve host: github.com'') \<and>
   \<not> str_includes (js ''fatal: unable to access '' @ [0x27] @
       js ''https://github.com/octocat/upstream-tools.git/'' @ [0x27] @
       js '': Could not resolve host: github.com'') (js ''no upstream'') \<and>
   sanitizeRepoName (toLowerCase posixHost) (js ''upstream-tools'') = js ''upstream-tools'' \<and>
   (case syncProjectWithProgress posixHost (js ''/w/upstream-tools'') (js ''upstream-tools'')
           flakyEnv sampleStart of
      (ok, rs, s') \<Rightarrow> pushes rs = [Push, PushUpstream] \<and> ok) \<and>
   (case syncProjectWithProgress posixHost (js ''/w/upstream-tools'') (js ''upstream-tools'')
           (flakyEnv\<lparr>pushUpstream := push flakyEnv\<rparr>) sampleStart of
      (ok, rs, s') \<Rightarrow> pushes rs = [Push, PushUpstream] \<and> \<not> ok)"
  by (simp add: wf_defs sample_defs san_defs pushes_def)

lemma workflow_after_remote_check:
  "createGitHubRepo (Rejected (Some 422) dm m) = Inr True \<and>
   createGitHubRepo (Rejected (Some 401) dm m) = Inl TokenInvalid \<and>
   createGitHubRepo (Rejected (Some 403) dm m) = Inl RateLimitExceeded \<and>
   (st \<noteq> Some 422 \<and> st \<noteq> Some 401 \<and> st \<noteq> Some 403 \<longrightarrow>
      createGitHubRepo (Rejected st dm m) =
        Inl (RepoCreateError (case dm of None \<Rightarrow> m | Some d \<Rightarrow> if d = [] then m else d))) \<and>
   (folderExists e \<and> isOnline (network s) \<and> config s = Some c \<longrightarrow>
      (case syncProjectWithProgress h p name e s of
         (ok, rs, s') \<Rightarrow>
           (case checkGitHubRepo (getRepo e) of
              Inl err \<Rightarrow> \<not> ok
            | Inr repoExists \<Rightarrow>
                if repoExists then
                  take 3 rs = [PathExists p,
                               GetRepo (username c) (sanitizeRepoName (toLowerCase h) name),
                               SimpleGit p]
                else
                  (case createGitHubRepo (createRepo e) of
                     Inr created \<Rightarrow>
                       take 4 rs = [PathExists p,
                                    GetRepo (username c) (sanitizeRepoName (toLowerCase h) name),
                                    CreateRepo (sanitizeRepoName (toLowerCase h) name),
                                    SimpleGit p]
                   | Inl err \<Rightarrow>
                       \<not> ok \<and>
                       rs = [PathExists p,
                             GetRepo (username c) (sanitizeRepoName (toLowerCase h) name),
                             CreateRepo (sanitizeRepoName (toLowerCase h) name)]))))"
proof -
  let ?n = "sanitizeRepoName (toLowerCase h) name"
  have a: "createGitHubRepo (Rejected (Some 422) dm m) = Inr True"
    and b: "createGitHubRepo (Rejected (Some 401) dm m) = Inl TokenInvalid"
    and c: "createGitHubRepo (Rejected (Some 403) dm m) = Inl RateLimitExceeded"
    by (simp_all add: createGitHubRepo_def)
  have d: "st \<noteq> Some 422 \<and> st \<noteq> Some 401 \<and> st \<noteq> Some 403 \<longrightarrow>
      createGitHubRepo (Rejected st dm m) =
        Inl (RepoCreateError (case dm of None \<Rightarrow> m | Some d \<Rightarrow> if d = [] then m else d))"
    by (simp add: createGitHubRepo_def)
  have w: "case syncProjectWithProgress h p name e s of
         (ok, rs, s') \<Rightarrow>
           (case checkGitHubRepo (getRepo e) of
              Inl err \<Rightarrow> \<not> ok
            | Inr repoExists \<Rightarrow>
                if repoExists then
                  take 3 rs = [PathExists p, GetRepo (username c) ?n, SimpleGit p]
                else
                  (case createGitHubRepo (createRepo e) of
                     Inr created \<Rightarrow>
                       take 4 rs = [PathExists p, GetRepo (username c) ?n, CreateRepo ?n, SimpleGit p]
                   | Inl err \<Rightarrow>
                       \<not> ok \<and> rs = [PathExists p, GetRepo (username c) ?n, CreateRepo ?n]))"
    if h: "folderExists e \<and> isOnline (network s) \<and> config s = Some c"
  proof (cases "checkGitHubRepo (getRepo e)")
    case (Inl err)
    with h show ?thesis
      by (simp add: syncProjectWithProgress_def issue_def Let_def)
  next
    case (Inr ex)
    let ?s3 = "updateProgressCallback p OpCheckingRemote 15
                 ((updateProgressCallback p OpCheckingFolder 5 s)
                    \<lparr>transfer := (transfer (updateProgressCallback p OpCheckingFolder 5 s))
                       \<lparr>currentFile := name\<rparr>\<rparr>)"
    show ?thesis
    proof (cases ex)
      case True
      obtain ok rs s' where
        "gitOperations c p ?n e (updateProgressCallback p OpRemoteExists 35 ?s3)
           = (ok, SimpleGit p # rs, s')"
        using gitOperations_first by blast
      with h Inr True show ?thesis
        by (simp add: syncProjectWithProgress_def createIfAbsent_def issue_def Let_def)
    next
      case False
      show ?thesis
      proof (cases "createGitHubRepo (createRepo e)")
        case (Inl err)
        with h Inr False show ?thesis
          by (simp add: syncProjectWithProgress_def createIfAbsent_def issue_def Let_def)
      next
        case (Inr created)
        obtain ok rs s' where
          "gitOperations c p ?n e
             (updateProgressCallback p OpRemoteCreated 35
               (updateProgressCallback p OpCreatingRemote 25 ?s3))
            = (ok, SimpleGit p # rs, s')"
          using gitOperations_first by blast
        with h \<open>checkGitHubRepo (getRepo e) = Inr ex\<close> False Inr show ?thesis
          by (simp add: syncProjectWithProgress_def createIfAbsent_def issue_def Let_def)
      qed
    qed
  qed
  from a b c d w show ?thesis by blast
qed

text \<open>
  Claim C6: \<open>createGitHubRepo\<close> returns for a request that resolves (true for status
  201) and takes a conflict (status 422, "already exists") for a success; status 401 and status 403 raise two different errors, the invalid token and
  the exceeded rate limit; every other failure raises the general creation error. So, with
  the folder present, the network reachable and a configuration loaded, the workflow goes
  on to its local steps (its next request is \<open>simpleGit(projectPath)\<close>) when the remote
  exists, when it is created and when the creation meets a conflict; when the creation
  raises an error, the workflow returns false and \<open>CreateRepo\<close> is its last request.
\<close>

theorem remote_creation_conflict_is_success:
  "createGitHubRepo (Resolved code) = Inr (code = 201) \<and>
   createGitHubRepo (Rejected (Some 422) dm m) = Inr True \<and>
   createGitHubRepo (Rejected (Some 401) dm m) = Inl TokenInvalid \<and>
   createGitHubRepo (Rejected (Some 403) dm m) = Inl RateLimitExceeded \<and>
   (st \<noteq> Some 422 \<and> st \<noteq> Some 401 \<and> st \<noteq> Some 403 \<longrightarrow>
      createGitHubRepo (Rejected st dm m) =
        Inl (RepoCreateError (case dm of None \<Rightarrow> m | Some d \<Rightarrow> if d = [] then m else d))) \<and>
   (folderExists e \<and> isOnline (network s) \<and> config s = Some c \<longrightarrow>
      (case syncProjectWithProgress h p name e s of
         (ok, rs, s') \<Rightarrow>
           (case checkGitHubRepo (getRepo e) of
              Inl err \<Rightarrow> \<not> ok
            | Inr repoExists \<Rightarrow>
                if repoExists then
                  take 3 rs = [PathExists p,
                               GetRepo (username c) (sanitizeRepoName (toLowerCase h) name),
                               SimpleGit p]
                else
                  (case createRepo e of
                     Resolved code' \<Rightarrow>
                       take 4 rs = [PathExists p,
                                    GetRepo (username c) (sanitizeRepoName (toLowerCase h) name),
                                    CreateRepo (sanitizeRepoName (toLowerCase h) name),
                                    SimpleGit p]
                   | Rejected st' dm' m' \<Rightarrow>
                       if st' = Some 422 then
                         take 4 rs = [PathExists p,
                                      GetRepo (username c) (sanitizeRepoName (toLowerCase h) name),
                                      CreateRepo (sanitizeRepoName (toLowerCase h) name),
                                      SimpleGit p]
                       else
                         \<not> ok \<and>
                         rs = [PathExists p,
                               GetRepo (username c) (sanitizeRepoName (toLowerCase h) name),
                               CreateRepo (sanitizeRepoName (toLowerCase h) name)]))))"
proof -
  have r: "createGitHubRepo (Resolved code) = Inr (code = 201)"
    by (simp add: createGitHubRepo_def)
  have w: "createRepo e = Resolved code' \<Longrightarrow> \<exists>x. createGitHubRepo (createRepo e) = Inr x"
    "createRepo e = Rejected (Some 422) dm' m' \<Longrightarrow> \<exists>x. createGitHubRepo (createRepo e) = Inr x"
    "createRepo e = Rejected st' dm' m' \<Longrightarrow> st' \<noteq> Some 422 \<Longrightarrow>
       \<exists>x. createGitHubRepo (createRepo e) = Inl x"
    for code' st' dm' m'
    by (auto simp: createGitHubRepo_def)
  from workflow_after_remote_check [where h = h and e = e and s = s and c = c and p = p
      and name = name and dm = dm and m = m and st = st] r
  show ?thesis
    by (auto split: prod.splits sum.splits axios_result.splits if_splits dest: w)
qed

theorem remote_creation_conflict_is_success_witness:
  "folderExists sampleEnv \<and> isOnline (network sampleStart) \<and> config sampleStart = Some sampleConfig \<and>
   checkGitHubRepo (getRepo sampleEnv) = Inr False \<and>
   createRepo sampleEnv = Rejected (Some 422) (Some (js ''Repository creation failed.''))
                            (js ''Request failed with status code 422'') \<and>
   createGitHubRepo (createRepo sampleEnv) = Inr True \<and>
   take 4 (fst (snd (syncProjectWithProgress posixHost (js ''/w/My App'') (js ''My App'')
                       sampleEnv sampleStart)))
     = [PathExists (js ''/w/My App''), GetRepo (js ''octocat'') (js ''my-app''),
        CreateRepo (js ''my-app''), SimpleGit (js ''/w/My App'')] \<and>
   createGitHubRepo (Resolved 201) = Inr True \<and>
   take 4 (fst (snd (syncProjectWithProgress posixHost (js ''/w/My App'') (js ''My App'')
                       (sampleEnv\<lparr>createRepo := Resolved 201\<rparr>) sampleStart)))
     = [PathExists (js ''/w/My App''), GetRepo (js ''octocat'') (js ''my-app''),
        CreateRepo (js ''my-app''), SimpleGit (js ''/w/My App'')] \<and>
   fst (syncProjectWithProgress posixHost (js ''/w/My App'') (js ''My App'')
          (sampleEnv\<lparr>createRepo := Rejected (Some 401) None (js ''Request failed with status code 401'')\<rparr>)
          sampleStart) = False"
  using remote_creation_conflict_is_success [where h = posixHost and p = "js ''/w/My App''"
      and name = "js ''My App''" and e = sampleEnv and s = sampleStart and c = sampleConfig
      and dm = "Some (js ''Repository creation failed.'')"
      and m = "js ''Request failed with status code 422''" and st = None and code = 201]
    remote_creation_conflict_is_success [where h = posixHost and p = "js ''/w/My App''"
      and name = "js ''My App''" and e = "sampleEnv\<lparr>createRepo := Resolved 201\<rparr>"
      and s = sampleStart and c = sampleConfig]
  by (simp add: sample_defs san_defs wf_defs split: prod.splits)

text \<open>
  Claim C10: a name that, after lowercasing and the replacement of white space, holds no
  code unit of \<open>[a-z0-9]\<close> is sanitised to the empty string, and the workflow uses the
  empty string as the name of the remote repository without a check: with the folder
  present, the network reachable and a configuration loaded, it asks GitHub for the
  repository with the empty name and, when that is absent, asks to create it. The witness
  is a name of two CJK ideographs.
\<close>

theorem empty_repo_name_is_used:
  "(\<forall>c \<in> set (replaceWhiteSpace (toLowerCase h name)). \<not> isAlnumLower c) \<longrightarrow>
     sanitizeRepoName (toLowerCase h) name = [] \<and>
     (folderExists e \<and> isOnline (network s) \<and> config s = Some c \<longrightarrow>
        (case syncProjectWithProgress h p name e s of
           (ok, rs, s') \<Rightarrow>
             take 2 rs = [PathExists p, GetRepo (username c) []] \<and>
             (checkGitHubRepo (getRepo e) = Inr False \<longrightarrow>
                take 3 rs = [PathExists p, GetRepo (username c) [], CreateRepo []])))"
proof (intro impI)
  assume a: "\<forall>c \<in> set (replaceWhiteSpace (toLowerCase h name)). \<not> isAlnumLower c"
  have n: "sanitizeRepoName (toLowerCase h) name = []"
    using a by (rule sanitize_empty)
  have w: "case syncProjectWithProgress h p name e s of
           (ok, rs, s') \<Rightarrow>
             take 2 rs = [PathExists p, GetRepo (username c) []] \<and>
             (checkGitHubRepo (getRepo e) = Inr False \<longrightarrow>
                take 3 rs = [PathExists p, GetRepo (username c) [], CreateRepo []])"
    if h: "folderExists e \<and> isOnline (network s) \<and> config s = Some c"
  proof (cases "checkGitHubRepo (getRepo e)")
    case (Inl err)
    with h n show ?thesis
      by (simp add: syncProjectWithProgress_def issue_def Let_def)
  next
    case (Inr ex)
    show ?thesis
    proof (cases ex)
      case True
      with h n Inr show ?thesis
        by (simp add: syncProjectWithProgress_def createIfAbsent_def issue_def Let_def split: prod.splits)
    next
      case False
      with h n Inr show ?thesis
        by (simp add: syncProjectWithProgress_def createIfAbsent_def issue_def Let_def
                 split: prod.splits sum.splits)
    qed
  qed
  from n w show "sanitizeRepoName (toLowerCase h) name = [] \<and>
     (folderExists e \<and> isOnline (network s) \<and> config s = Some c \<longrightarrow>
        (case syncProjectWithProgress h p name e s of
           (ok, rs, s') \<Rightarrow>
             take 2 rs = [PathExists p, GetRepo (username c) []] \<and>
             (checkGitHubRepo (getRepo e) = Inr False \<longrightarrow>
                take 3 rs = [PathExists p, GetRepo (username c) [], CreateRepo []])))"
    by blast
qed

theorem empty_repo_name_is_used_witness:
  "filter isAlnumLower (replaceWhiteSpace (toLowerCase posixHost [0x65E5, 0x672C])) = [] \<and>
   sanitizeRepoName (toLowerCase posixHost) [0x65E5, 0x672C] = [] \<and>
   folderExists sampleEnv \<and> isOnline (network sampleStart) \<and> config sampleStart = Some sampleConfig \<and>
   checkGitHubRepo (getRepo sampleEnv) = Inr False \<and>
   take 3 (fst (snd (syncProjectWithProgress posixHost (js ''/w/'' @ [0x65E5, 0x672C]) [0x65E5, 0x672C]
                        sampleEnv sampleStart)))
     = [PathExists (js ''/w/'' @ [0x65E5, 0x672C]), GetRepo (js ''octocat'') [], CreateRepo []]"
  using empty_repo_name_is_used [where h = posixHost and name = "[0x65E5, 0x672C]"
      and e = sampleEnv and s = sampleStart and c = sampleConfig
      and p = "js ''/w/'' @ [0x65E5, 0x672C]"]
  by (simp add: sample_defs san_defs checkGitHubRepo_def split: prod.splits)

section \<open>The batch\<close>

lemma map_fst_map_entry [simp]: "map fst (AList.map_entry k f xs) = map fst xs"
  by (induction xs) auto

lemma map_of_map_entry_other: "q \<noteq> k \<Longrightarrow> map_of (AList.map_entry k f xs) q = map_of xs q"
  by (simp add: map_of_map_entry)

lemma map_of_map_entry_same: "map_of (AList.map_entry k f xs) k = map_option f (map_of xs k)"
  by (simp add: map_of_map_entry split: option.splits)

lemma frame_refl: "frame p s s"
  by (simp add: frame_def)

lemma frame_upc: "frame p s s1 \<Longrightarrow> frame p s (updateProgressCallback p op n s1)"
  by (simp add: frame_def updateProgressCallback_def updateStatus_def map_of_map_entry_other)

lemma frame_entry:
  "frame p s s1 \<Longrightarrow>
   frame p s (s1\<lparr>status := (status s1)\<lparr>projects := AList.map_entry p f (projects (status s1))\<rparr>\<rparr>)"
  by (simp add: frame_def map_of_map_entry_other)

lemma frame_transfer: "frame p s s1 \<Longrightarrow> frame p s (s1\<lparr>transfer := t\<rparr>)"
  by (simp add: frame_def)

lemma framed_triple: "frame p s s1 \<Longrightarrow> framed p s (ok, rs, s1)"
  by (simp add: framed_def)

lemma framed_issue: "framed p s x \<Longrightarrow> framed p s (issue r x)"
  by (cases x) (simp add: framed_def issue_def)

lemma framed_issueAll: "framed p s x \<Longrightarrow> framed p s (issueAll rs x)"
  by (cases x) (simp add: framed_def issueAll_def)

lemma framed_pushChanges: "frame p s s1 \<Longrightarrow> framed p s (pushChanges p hc e s1)"
  unfolding pushChanges_def Let_def
  by (auto intro!: framed_issue framed_triple frame_upc split: option.splits)

lemma framed_commitChanges: "frame p s s1 \<Longrightarrow> framed p s (commitChanges p e s1)"
  unfolding commitChanges_def Let_def
  by (auto intro!: framed_issue framed_triple frame_upc frame_transfer framed_pushChanges
           split: option.splits sum.splits)

lemma framed_setupRemote: "frame p s s1 \<Longrightarrow> framed p s (setupRemote c p n e s1)"
  unfolding setupRemote_def Let_def
  by (auto intro!: framed_issue framed_commitChanges frame_upc split: option.splits)

lemma framed_gitOperations: "frame p s s1 \<Longrightarrow> framed p s (gitOperations c p n e s1)"
  unfolding gitOperations_def Let_def
  by (auto intro!: framed_issue framed_issueAll framed_triple framed_setupRemote frame_upc frame_entry
           split: option.splits sum.splits prod.splits)

lemma framed_createIfAbsent: "frame p s s1 \<Longrightarrow> framed p s (createIfAbsent c p n ex e s1)"
  unfolding createIfAbsent_def Let_def
  by (auto intro!: framed_issue framed_triple framed_gitOperations frame_upc split: sum.splits)

lemma framed_syncProjectWithProgress:
  "frame p s s1 \<Longrightarrow> framed p s (syncProjectWithProgress h p name e s1)"
  unfolding syncProjectWithProgress_def Let_def
  by (auto intro!: framed_issue framed_triple framed_createIfAbsent frame_upc frame_transfer
           split: sum.splits option.splits)

lemma syncProjectWithProgress_frame:
  "syncProjectWithProgress h p name e s = (ok, rs, s') \<Longrightarrow> frame p s s'"
  using framed_syncProjectWithProgress [OF frame_refl, of p s h name e] by (simp add: framed_def)

lemma iteration_facts:
  assumes it: "processQueue_iteration h b e s = (ok, rs, s')"
  shows iteration_running: "running s' = Some (b\<lparr>index := index b + 1\<rparr>)"
    and iteration_completed:
      "completedProjects (stats s') = completedProjects (stats s) + (if ok then 1 else 0)"
    and iteration_failed:
      "failedProjects (stats s') = failedProjects (stats s) + (if ok then 0 else 1)"
    and iteration_syncQueue: "syncQueue s' = syncQueue s"
    and iteration_isSyncing: "isSyncing (status s') = isSyncing (status s)"
    and iteration_detections: "detections s' = detections s"
    and iteration_keys: "map fst (projects (status s')) = map fst (projects (status s))"
    and iteration_record:
      "map_of (projects (status s)) (projectPaths b ! index b) = Some pr \<Longrightarrow>
       \<exists>pr'. map_of (projects (status s')) (projectPaths b ! index b) = Some pr' \<and>
             p_status pr' = (if ok then Synced else Error) \<and>
             p_progress pr' = (if ok then 100 else 0)"
    and iteration_others:
      "q \<noteq> projectPaths b ! index b \<Longrightarrow>
       map_of (projects (status s')) q = map_of (projects (status s)) q"
proof -
  let ?p = "projectPaths b ! index b"
  let ?s1 = "updateStatus PhaseSyncing
                 (s\<lparr>stats := (stats s)\<lparr>currentProject := Some (basename h ?p),
                                       currentPath := Some ?p\<rparr>\<rparr>)"
  let ?s2 = "?s1\<lparr>status := (status ?s1)\<lparr>projects :=
                 AList.map_entry ?p
                   (\<lambda>pr. pr\<lparr>p_status := Syncing, p_currentOperation := OpStarting, p_progress := 0\<rparr>)
                   (projects (status ?s1))\<rparr>\<rparr>"
  obtain s3 where wf: "syncProjectWithProgress h ?p (basename h ?p) e ?s2 = (ok, rs, s3)"
    using it by (auto simp: processQueue_iteration_def Let_def split: prod.splits)
  have fr: "frame ?p ?s2 s3" using wf by (rule syncProjectWithProgress_frame)
  have s': "s' = (if ok then
                   (let s5 = updateStatus PhaseSyncing
                          (s3\<lparr>stats := (stats s3)
                                 \<lparr>completedProjects := completedProjects (stats s3) + 1\<rparr>,
                              transfer := (transfer s3)
                                 \<lparr>uploadedFiles := uploadedFiles (transfer s3) + 1\<rparr>\<rparr>)
                    in s5\<lparr>status := (status s5)\<lparr>projects :=
                         AList.map_entry ?p
                           (\<lambda>pr. pr\<lparr>p_status := Synced, p_lastCheck := now s5,
                                    p_message := MsgSynced, p_progress := 100,
                                    p_currentOperation := OpFinished\<rparr>)
                           (projects (status s5))\<rparr>\<rparr>)
                 else
                   s3\<lparr>stats := (stats s3)\<lparr>failedProjects := failedProjects (stats s3) + 1\<rparr>,
                      status := (status s3)\<lparr>projects :=
                        AList.map_entry ?p
                          (\<lambda>pr. pr\<lparr>p_status := Error, p_message := MsgSyncError,
                                   p_progress := 0, p_currentOperation := OpFailed\<rparr>)
                          (projects (status s3))\<rparr>\<rparr>)\<lparr>running := Some (b\<lparr>index := index b + 1\<rparr>)\<rparr>"
    using it wf by (simp add: processQueue_iteration_def Let_def)
  show "running s' = Some (b\<lparr>index := index b + 1\<rparr>)"
    by (simp add: s' Let_def)
  show "completedProjects (stats s') = completedProjects (stats s) + (if ok then 1 else 0)"
    using fr by (simp add: s' Let_def frame_def updateStatus_def)
  show "failedProjects (stats s') = failedProjects (stats s) + (if ok then 0 else 1)"
    using fr by (simp add: s' Let_def frame_def updateStatus_def)
  show "syncQueue s' = syncQueue s"
    using fr by (simp add: s' Let_def frame_def updateStatus_def)
  show "isSyncing (status s') = isSyncing (status s)"
    using fr by (simp add: s' Let_def frame_def updateStatus_def)
  show "detections s' = detections s"
    using fr by (simp add: s' Let_def frame_def updateStatus_def)
  show "map fst (projects (status s')) = map fst (projects (status s))"
    using fr by (simp add: s' Let_def frame_def updateStatus_def)
  show "\<exists>pr'. map_of (projects (status s')) ?p = Some pr' \<and>
             p_status pr' = (if ok then Synced else Error) \<and>
             p_progress pr' = (if ok then 100 else 0)"
    if "map_of (projects (status s)) ?p = Some pr"
  proof -
    have "?p \<in> set (map fst (projects (status s)))"
      using that by (metis map_of_eq_None_iff option.distinct(1) set_map)
    then have "?p \<in> set (map fst (projects (status s3)))"
      using fr by (simp add: frame_def updateStatus_def)
    then obtain pr3 where "map_of (projects (status s3)) ?p = Some pr3"
      by (metis map_of_eq_None_iff not_Some_eq set_map)
    then show ?thesis
      by (simp add: s' Let_def updateStatus_def map_of_map_entry_same)
  qed
  show "map_of (projects (status s')) q = map_of (projects (status s)) q" if "q \<noteq> ?p"
    using fr that by (simp add: s' Let_def frame_def updateStatus_def map_of_map_entry_other)
qed

lemma workflowStarts_append [simp]: "workflowStarts (xs @ ys) = workflowStarts xs @ workflowStarts ys"
  by (simp add: workflowStarts_def)























section \<open>The queue and the events\<close>

lemma debounceFired_fields [simp]:
  "detections (debounceFired p s) = detections s"
  "running (debounceFired p s) = running s"
  "isSyncing (status (debounceFired p s)) = isSyncing (status s)"
  "now (debounceFired p s) = now s"
  "config (debounceFired p s) = config s"
  by (simp_all add: debounceFired_def)

lemma fold_debounceFired_fields [simp]:
  "detections (fold (\<lambda>(q, d). debounceFired q) ts s) = detections s"
  "running (fold (\<lambda>(q, d). debounceFired q) ts s) = running s"
  "isSyncing (status (fold (\<lambda>(q, d). debounceFired q) ts s)) = isSyncing (status s)"
  by (induction ts arbitrary: s; simp add: split_def)+

lemma set_setAdd [simp]: "set (setAdd x xs) = insert x (set xs)"
  by (auto simp: setAdd_def)

lemma distinct_setAdd [simp]: "distinct (setAdd x xs) = distinct xs"
  by (auto simp: setAdd_def)

lemma fold_debounceFired_queue:
  "set (syncQueue (fold (\<lambda>(q, d). debounceFired q) ts s)) = set (syncQueue s) \<union> fst ` set ts"
  by (induction ts arbitrary: s) (auto simp: debounceFired_def split_def)

lemma advance_fields [simp]:
  "detections (advance t s) = detections s"
  "running (advance t s) = running s"
  "isSyncing (status (advance t s)) = isSyncing (status s)"
  by (simp_all add: advance_def)

lemma advance_queue: "set (syncQueue s) \<subseteq> set (syncQueue (advance t s))"
  by (simp add: advance_def fold_debounceFired_queue)

lemma resumeDetect_fields:
  "running (checkFolderModifications_resume k obs s) = running s"
  "syncQueue (checkFolderModifications_resume k obs s) = syncQueue s"
  "isSyncing (status (checkFolderModifications_resume k obs s)) = isSyncing (status s)"
  "length (detections (checkFolderModifications_resume k obs s)) \<le> length (detections s)"
  by (auto simp: detect_defs split: prod.splits option.splits)

lemma scanItem_fields:
  "running (scanProjects_item p n m g s) = running s"
  "set (syncQueue s) \<subseteq> set (syncQueue (scanProjects_item p n m g s))"
  "isSyncing (status (scanProjects_item p n m g s)) = isSyncing (status s)"
  "detections (scanProjects_item p n m g s) = detections s"
  by (auto simp: scanProjects_item_def updateStatus_def Let_def)

lemma resumeBatch_fields:
  "syncQueue (snd (snd (processQueue_resume h e s))) = syncQueue s"
  "detections (snd (snd (processQueue_resume h e s))) = detections s"
  "running s = Some b \<Longrightarrow>
     running (snd (snd (processQueue_resume h e s))) = None \<or>
     running (snd (snd (processQueue_resume h e s))) = Some (b\<lparr>index := index b + 1\<rparr>)"
proof -
  show "syncQueue (snd (snd (processQueue_resume h e s))) = syncQueue s"
  proof (cases "running s")
    case None
    then show ?thesis by (simp add: processQueue_resume_def)
  next
    case (Some b)
    obtain ok rs s' where it: "processQueue_iteration h b e s = (ok, rs, s')"
      by (cases "processQueue_iteration h b e s") auto
    from iteration_syncQueue [OF it] Some it show ?thesis
      by (simp add: processQueue_resume_def processQueue_end_def updateStatus_def Let_def)
  qed
  show "detections (snd (snd (processQueue_resume h e s))) = detections s"
  proof (cases "running s")
    case None
    then show ?thesis by (simp add: processQueue_resume_def)
  next
    case (Some b)
    obtain ok rs s' where it: "processQueue_iteration h b e s = (ok, rs, s')"
      by (cases "processQueue_iteration h b e s") auto
    from iteration_detections [OF it] Some it show ?thesis
      by (simp add: processQueue_resume_def processQueue_end_def updateStatus_def Let_def)
  qed
  show "running (snd (snd (processQueue_resume h e s))) = None \<or>
     running (snd (snd (processQueue_resume h e s))) = Some (b\<lparr>index := index b + 1\<rparr>)"
    if "running s = Some b"
  proof -
    obtain ok rs s' where it: "processQueue_iteration h b e s = (ok, rs, s')"
      by (cases "processQueue_iteration h b e s") auto
    from iteration_running [OF it] that it show ?thesis
      by (simp add: processQueue_resume_def processQueue_end_def updateStatus_def Let_def)
  qed
qed

lemma during_batch_queue:
  assumes "batchRunning s"
  shows "set (syncQueue s) \<subseteq> set (syncQueue (step h ev s))"
proof (cases ev)
  case (Advance t)
  then show ?thesis by (simp add: advance_queue)
next
  case (ScanItem p n m g)
  then show ?thesis by (simp add: scanItem_fields)
next
  case DetectTick
  with assms show ?thesis by (simp add: batchRunning_def checkFolderModifications_begin_def)
next
  case (ResumeDetect k obs)
  then show ?thesis by (simp add: resumeDetect_fields)
next
  case ProcessTick
  with assms show ?thesis by (simp add: batchRunning_def processTick_def)
next
  case ManualSync
  with assms show ?thesis by (simp add: batchRunning_def manualSync_def)
next
  case (ResumeBatch e)
  then show ?thesis by (simp add: resumeBatch_fields)
next
  case (NetworkProbe b)
  then show ?thesis by simp
next
  case RefreshStatus
  then show ?thesis by (simp add: updateStatus_def)
qed

lemma during_batch_snapshot:
  assumes "batchRunning s" "running s = Some b"
  shows "running (step h ev s) = None \<or>
         (\<exists>b'. running (step h ev s) = Some b' \<and> projectPaths b' = projectPaths b)"
proof (cases ev)
  case (Advance t)
  with assms show ?thesis by simp
next
  case (ScanItem p n m g)
  with assms show ?thesis by (simp add: scanItem_fields)
next
  case DetectTick
  with assms show ?thesis by (simp add: batchRunning_def checkFolderModifications_begin_def)
next
  case (ResumeDetect k obs)
  with assms show ?thesis by (simp add: resumeDetect_fields)
next
  case ProcessTick
  with assms show ?thesis by (simp add: batchRunning_def processTick_def)
next
  case ManualSync
  with assms show ?thesis by (simp add: batchRunning_def manualSync_def)
next
  case (ResumeBatch e)
  with resumeBatch_fields(3) [OF assms(2), of h e] show ?thesis by auto
next
  case (NetworkProbe b)
  with assms show ?thesis by simp
next
  case RefreshStatus
  with assms show ?thesis by (simp add: updateStatus_def)
qed

lemma pass_begins_only_at_tick:
  assumes "length (detections s) < length (detections (step h ev s))"
  shows "ev = DetectTick \<and> \<not> isSyncing (status s)"
proof (cases ev)
  case (Advance t)
  with assms show ?thesis by simp
next
  case (ScanItem p n m g)
  with assms show ?thesis by (simp add: scanItem_fields)
next
  case DetectTick
  with assms show ?thesis by (auto simp: checkFolderModifications_begin_def split: if_splits)
next
  case (ResumeDetect k obs)
  with assms resumeDetect_fields(4) [of k obs s] show ?thesis by simp
next
  case ProcessTick
  with assms show ?thesis
    by (auto simp: processTick_def processQueue_begin_def updateStatus_def split: if_splits)
next
  case ManualSync
  with assms show ?thesis
    by (auto simp: manualSync_def enqueueAll_def processQueue_begin_def updateStatus_def split: if_splits)
next
  case (ResumeBatch e)
  with assms show ?thesis by (simp add: resumeBatch_fields)
next
  case (NetworkProbe b)
  with assms show ?thesis by simp
next
  case RefreshStatus
  with assms show ?thesis by (simp add: updateStatus_def)
qed

text \<open>
  In every state that the events reach from a new object, the busy flag is up exactly when
  a batch is suspended.
\<close>

lemma busy_flag_step:
  assumes "isSyncing (status s) \<longleftrightarrow> running s \<noteq> None"
  shows "isSyncing (status (step h ev s)) \<longleftrightarrow> running (step h ev s) \<noteq> None"
proof (cases ev)
  case (Advance t)
  with assms show ?thesis by simp
next
  case (ScanItem p n m g)
  with assms show ?thesis by (simp add: scanItem_fields)
next
  case DetectTick
  with assms show ?thesis
    by (auto simp: checkFolderModifications_begin_def checkFolderModifications_end_def updateStatus_def)
next
  case (ResumeDetect k obs)
  with assms show ?thesis by (simp add: resumeDetect_fields)
next
  case ProcessTick
  with assms show ?thesis
    by (auto simp: processTick_def processQueue_begin_def updateStatus_def)
next
  case ManualSync
  with assms show ?thesis
    by (auto simp: manualSync_def enqueueAll_def processQueue_begin_def updateStatus_def)
next
  case (ResumeBatch e)
  show ?thesis
  proof (cases "running s")
    case None
    with assms ResumeBatch show ?thesis by (simp add: processQueue_resume_def)
  next
    case (Some b)
    obtain ok rs s' where it: "processQueue_iteration h b e s = (ok, rs, s')"
      by (cases "processQueue_iteration h b e s") auto
    from iteration_running [OF it] iteration_isSyncing [OF it] assms Some it ResumeBatch
    show ?thesis
      by (simp add: processQueue_resume_def processQueue_end_def updateStatus_def Let_def)
  qed
next
  case (NetworkProbe b)
  with assms show ?thesis by simp
next
  case RefreshStatus
  with assms show ?thesis by (simp add: updateStatus_def)
qed

lemma busy_flag_run:
  "isSyncing (status (run h evs (initial cfg t))) \<longleftrightarrow> running (run h evs (initial cfg t)) \<noteq> None"
proof (induction evs rule: rev_induct)
  case Nil
  then show ?case by (simp add: run_def initial_def)
next
  case (snoc ev evs)
  from busy_flag_step [OF snoc.IH, of h ev] show ?case by (simp add: run_def)
qed

lemma run_Cons: "run h (ev # evs) s = run h evs (step h ev s)"
  by (simp add: run_def)

lemma batchBefore_run:
  "batchBefore h evs s \<Longrightarrow> running s = Some b \<Longrightarrow>
   set (syncQueue s) \<subseteq> set (syncQueue (run h evs s)) \<and>
   (case running (run h evs s) of
      Some b' \<Rightarrow> projectPaths b' = projectPaths b
    | None \<Rightarrow> \<not> isSyncing (status (run h evs s)))"
proof (induction evs arbitrary: s b)
  case Nil
  then show ?case by (simp add: run_def)
next
  case (Cons ev evs)
  from Cons.prems have br: "batchRunning s" and bb: "batchBefore h evs (step h ev s)"
    by simp_all
  have q: "set (syncQueue s) \<subseteq> set (syncQueue (step h ev s))"
    using br by (rule during_batch_queue)
  have inv: "isSyncing (status (step h ev s)) \<longleftrightarrow> running (step h ev s) \<noteq> None"
    using br by (intro busy_flag_step) (simp add: batchRunning_def)
  show ?case
  proof (cases "running (step h ev s)")
    case None
    then have "evs = []" using bb by (cases evs) (simp_all add: batchRunning_def)
    with None inv q show ?thesis by (simp add: run_def)
  next
    case (Some b1)
    with during_batch_snapshot [OF br Cons.prems(2), of h ev]
    have p: "projectPaths b1 = projectPaths b" by auto
    from Cons.IH [OF bb Some] q p show ?thesis
      unfolding run_Cons by (auto split: option.splits)
  qed
qed

lemma set_fold_setAdd: "set (fold setAdd xs q) = set q \<union> set xs"
  by (induction xs arbitrary: q) auto

text \<open>
  Claim C4: the sync queue is a set: adding a path that is queued leaves the queue as it
  is, and the queue after an addition holds the path and what it held. When a batch
  begins, the queue becomes its snapshot, in order, and is emptied. From then on, up to
  and including the step that ends the batch, no event changes the snapshot and no event
  takes a path out of the queue: a path added during the batch is not added to the
  batch, is still queued when the batch has ended and the busy flag is down, and is in
  the snapshot of the batch that begins next.
\<close>

theorem syncQueue_set_and_snapshot:
  "(p \<in> set q \<longrightarrow> setAdd p q = q) \<and>
   set (setAdd p q) = insert p (set q) \<and>
   (\<not> isSyncing (status s) \<and> syncQueue s \<noteq> [] \<longrightarrow>
      running (processQueue_begin s) = Some \<lparr>projectPaths = syncQueue s, index = 0\<rparr> \<and>
      syncQueue (processQueue_begin s) = [] \<and> batchRunning (processQueue_begin s)) \<and>
   (running s = Some b \<and> batchBefore h evs s \<longrightarrow>
      set (syncQueue s) \<subseteq> set (syncQueue (run h evs s)) \<and>
      (case running (run h evs s) of
         Some b' \<Rightarrow> projectPaths b' = projectPaths b
       | None \<Rightarrow>
           \<not> isSyncing (status (run h evs s)) \<and>
           (syncQueue (run h evs s) \<noteq> [] \<longrightarrow>
              running (processQueue_begin (run h evs s))
                = Some \<lparr>projectPaths = syncQueue (run h evs s), index = 0\<rparr>)))"
proof -
  have 1: "p \<in> set q \<longrightarrow> setAdd p q = q" "set (setAdd p q) = insert p (set q)"
    by (auto simp: setAdd_def)
  have 3: "running (processQueue_begin s') = Some \<lparr>projectPaths = syncQueue s', index = 0\<rparr> \<and>
      syncQueue (processQueue_begin s') = [] \<and> batchRunning (processQueue_begin s')"
    if "\<not> isSyncing (status s') \<and> syncQueue s' \<noteq> []" for s'
    using that by (simp add: processQueue_begin_def updateStatus_def batchRunning_def)
  have 4: "set (syncQueue s) \<subseteq> set (syncQueue (run h evs s)) \<and>
      (case running (run h evs s) of
         Some b' \<Rightarrow> projectPaths b' = projectPaths b
       | None \<Rightarrow>
           \<not> isSyncing (status (run h evs s)) \<and>
           (syncQueue (run h evs s) \<noteq> [] \<longrightarrow>
              running (processQueue_begin (run h evs s))
                = Some \<lparr>projectPaths = syncQueue (run h evs s), index = 0\<rparr>))"
    if "running s = Some b \<and> batchBefore h evs s"
    using batchBefore_run [of h evs s b] that 3 [of "run h evs s"]
    by (auto split: option.splits)
  from 1 3 [of s] 4 show ?thesis by blast
qed

theorem syncQueue_set_and_snapshot_witness:
  "js ''/w/a'' \<in> set [js ''/w/a'', js ''/w/b''] \<and>
   setAdd (js ''/w/a'') [js ''/w/a'', js ''/w/b''] = [js ''/w/a'', js ''/w/b''] \<and>
   \<not> isSyncing (status sampleQueued) \<and> syncQueue sampleQueued \<noteq> [] \<and>
   running (processQueue_begin sampleQueued)
     = Some \<lparr>projectPaths = [js ''/w/a'', js ''/w/b''], index = 0\<rparr> \<and>
   syncQueue (processQueue_begin sampleQueued) = [] \<and>
   running sampleBusy = Some \<lparr>projectPaths = [js ''/w/a''], index = 0\<rparr> \<and>
   batchBefore posixHost
     [ScanItem (js ''/w/b'') (js ''b'') 20 False, ProcessTick, ManualSync, Advance 100] sampleBusy \<and>
   syncQueue (run posixHost
     [ScanItem (js ''/w/b'') (js ''b'') 20 False, ProcessTick, ManualSync, Advance 100] sampleBusy)
     = [js ''/w/b''] \<and>
   running (run posixHost
     [ScanItem (js ''/w/b'') (js ''b'') 20 False, ProcessTick, ManualSync, Advance 100] sampleBusy)
     = Some \<lparr>projectPaths = [js ''/w/a''], index = 0\<rparr> \<and>
   batchBefore posixHost
     [ScanItem (js ''/w/b'') (js ''b'') 20 False, ResumeBatch sampleEnv, ResumeBatch sampleEnv]
     sampleBusy \<and>
   running (run posixHost
     [ScanItem (js ''/w/b'') (js ''b'') 20 False, ResumeBatch sampleEnv, ResumeBatch sampleEnv]
     sampleBusy) = None \<and>
   syncQueue (run posixHost
     [ScanItem (js ''/w/b'') (js ''b'') 20 False, ResumeBatch sampleEnv, ResumeBatch sampleEnv]
     sampleBusy) = [js ''/w/b''] \<and>
   running (processQueue_begin (run posixHost
     [ScanItem (js ''/w/b'') (js ''b'') 20 False, ResumeBatch sampleEnv, ResumeBatch sampleEnv]
     sampleBusy)) = Some \<lparr>projectPaths = [js ''/w/b''], index = 0\<rparr>"
  using syncQueue_set_and_snapshot [where p = "js ''/w/a''" and q = "[js ''/w/a'', js ''/w/b'']"
      and s = sampleQueued]
    syncQueue_set_and_snapshot [where s = sampleBusy and h = posixHost
      and b = "\<lparr>projectPaths = [js ''/w/a''], index = 0\<rparr>"
      and evs = "[ScanItem (js ''/w/b'') (js ''b'') 20 False, ProcessTick, ManualSync, Advance 100]"]
    syncQueue_set_and_snapshot [where s = sampleBusy and h = posixHost
      and b = "\<lparr>projectPaths = [js ''/w/a''], index = 0\<rparr>"
      and evs = "[ScanItem (js ''/w/b'') (js ''b'') 20 False, ResumeBatch sampleEnv,
                  ResumeBatch sampleEnv]"]
  by (simp add: sample_defs sched_defs wf_defs san_defs)

text \<open>
  Claim C3, as amended: a detection pass begins only at a detection tick at which the
  busy flag is down, and a tick at which the flag is up leaves the state as it is, so the
  whole pass is skipped. The flag is read only when the pass begins: nothing keeps a batch
  from beginning while a pass that began before it is suspended partway.
\<close>

theorem detection_pass_begins_outside_batch:
  "(isSyncing (status s) \<longrightarrow> step h DetectTick s = s) \<and>
   (length (detections s) < length (detections (step h ev s)) \<longrightarrow>
      ev = DetectTick \<and> \<not> isSyncing (status s) \<and> \<not> batchRunning s)"
  using pass_begins_only_at_tick [of s h ev]
  by (auto simp: checkFolderModifications_begin_def batchRunning_def)

theorem detection_pass_begins_outside_batch_witness:
  "isSyncing (status sampleBusy) \<and> step posixHost DetectTick sampleBusy = sampleBusy \<and>
   length (detections sampleIdle) < length (detections (step posixHost DetectTick sampleIdle)) \<and>
   \<not> isSyncing (status sampleIdle) \<and> \<not> batchRunning sampleIdle"
  using detection_pass_begins_outside_batch [where s = sampleBusy and h = posixHost]
    detection_pass_begins_outside_batch [where s = sampleIdle and h = posixHost and ev = DetectTick]
  by (simp add: sample_defs sched_defs updateStatus_def)

text \<open>
  Against claim C3 as stated: after the scan has registered and queued a project, a
  detection tick suspends a pass over the registry; the tick of the processor that
  follows starts a batch, and the pass and the batch are in progress together.
\<close>

theorem batch_begins_during_detection_counterexample:
  "detecting sampleDetecting \<and> \<not> batchRunning sampleDetecting \<and>
   detecting (step posixHost ProcessTick sampleDetecting) \<and>
   batchRunning (step posixHost ProcessTick sampleDetecting)"
  by (simp add: sample_defs sched_defs updateStatus_def)

text \<open>
  Claim C8, as amended: with a configuration loaded and no batch in progress, the manual
  sync is the addition of every path of the registry to the queue followed at once by the
  batch processor, so that a batch over the whole queue begins if the queue is not empty;
  while a batch is in progress the manual sync changes nothing, and no path is queued.
\<close>

theorem manualSync_when_idle:
  "(config s \<noteq> None \<and> \<not> isSyncing (status s) \<longrightarrow>
      manualSync s = processQueue_begin (enqueueAll s) \<and>
      set (syncQueue (enqueueAll s)) = set (syncQueue s) \<union> fst ` set (projects (status s)) \<and>
      (syncQueue (enqueueAll s) \<noteq> [] \<longrightarrow>
         running (manualSync s) = Some \<lparr>projectPaths = syncQueue (enqueueAll s), index = 0\<rparr> \<and>
         syncQueue (manualSync s) = [] \<and> isSyncing (status (manualSync s)))) \<and>
   (isSyncing (status s) \<longrightarrow> manualSync s = s)"
  by (auto simp: manualSync_def enqueueAll_def set_fold_setAdd processQueue_begin_def updateStatus_def)

theorem manualSync_when_idle_witness:
  "config sampleIdle \<noteq> None \<and> \<not> isSyncing (status sampleIdle) \<and>
   syncQueue sampleIdle = [] \<and>
   syncQueue (enqueueAll sampleIdle) = [js ''/w/a''] \<and>
   running (manualSync sampleIdle) = Some \<lparr>projectPaths = [js ''/w/a''], index = 0\<rparr> \<and>
   syncQueue (manualSync sampleIdle) = [] \<and> isSyncing (status (manualSync sampleIdle)) \<and>
   isSyncing (status sampleBusy) \<and> manualSync sampleBusy = sampleBusy"
  using manualSync_when_idle [where s = sampleIdle] manualSync_when_idle [where s = sampleBusy]
  by (simp add: sample_defs sched_defs updateStatus_def)

text \<open>
  Against claim C8 as stated: while a batch is running over the one registered project,
  the manual sync leaves the queue empty, whereas adding every path of the registry and
  calling the processor would leave that path queued for the next batch.
\<close>

theorem manualSync_busy_counterexample:
  "config sampleBusy \<noteq> None \<and> isSyncing (status sampleBusy) \<and>
   map fst (projects (status sampleBusy)) = [js ''/w/a''] \<and>
   syncQueue (manualSync sampleBusy) = [] \<and>
   syncQueue (processQueue_begin (enqueueAll sampleBusy)) = [js ''/w/a''] \<and>
   manualSync sampleBusy \<noteq> processQueue_begin (enqueueAll sampleBusy)"
proof -
  have 1: "config sampleBusy \<noteq> None \<and> isSyncing (status sampleBusy) \<and>
   map fst (projects (status sampleBusy)) = [js ''/w/a''] \<and>
   syncQueue (manualSync sampleBusy) = [] \<and>
   syncQueue (processQueue_begin (enqueueAll sampleBusy)) = [js ''/w/a'']"
    by (simp add: sample_defs sched_defs updateStatus_def)
  then have "syncQueue (manualSync sampleBusy) \<noteq> syncQueue (processQueue_begin (enqueueAll sampleBusy))"
    by (simp add: js_def)
  then have "manualSync sampleBusy \<noteq> processQueue_begin (enqueueAll sampleBusy)"
    by metis
  with 1 show ?thesis by blast
qed

section \<open>The status snapshot\<close>

text \<open>
  Claim C9: of the configuration the snapshot of \<open>getDetailedStatus\<close> shows the user name
  only, or \<open>null\<close> when there is no configuration, and two states that differ in the access
  token only have the same snapshot.
\<close>

theorem getDetailedStatus_omits_token:
  "snap_config (getDetailedStatus a s) = map_option username (config s) \<and>
   getDetailedStatus a (s\<lparr>config := Some (c\<lparr>token := t1\<rparr>)\<rparr>) =
   getDetailedStatus a (s\<lparr>config := Some (c\<lparr>token := t2\<rparr>)\<rparr>)"
  by (simp add: getDetailedStatus_def split: option.splits)

theorem getDetailedStatus_omits_token_witness:
  "getDetailedStatus \<lparr>statusMessage = js ''ok'', statusProgress = (0::nat), uploadSpeed = 0,
                       memoryUsage = (), uptime = 5\<rparr>
     (sampleIdle\<lparr>config := Some (sampleConfig\<lparr>token := js ''ghp_one''\<rparr>)\<rparr>) =
   getDetailedStatus \<lparr>statusMessage = js ''ok'', statusProgress = (0::nat), uploadSpeed = 0,
                       memoryUsage = (), uptime = 5\<rparr>
     (sampleIdle\<lparr>config := Some (sampleConfig\<lparr>token := js ''ghp_two''\<rparr>)\<rparr>) \<and>
   snap_config (getDetailedStatus \<lparr>statusMessage = js ''ok'', statusProgress = (0::nat),
                       uploadSpeed = 0, memoryUsage = (), uptime = 5\<rparr> sampleIdle)
     = Some (js ''octocat'')"
  using getDetailedStatus_omits_token [where s = sampleIdle and c = sampleConfig
      and ?t1.0 = "js ''ghp_one''" and ?t2.0 = "js ''ghp_two''"
      and a = "\<lparr>statusMessage = js ''ok'', statusProgress = (0::nat), uploadSpeed = 0,
                       memoryUsage = (), uptime = 5\<rparr>"]
  by (simp add: sample_defs updateStatus_def Let_def getDetailedStatus_def)

section \<open>The debouncer\<close>

lemma timersOf_append [simp]: "timersOf p (xs @ ys) = timersOf p xs @ timersOf p ys"
  by (simp add: timersOf_def)

lemma timersOf_cancel_same [simp]: "timersOf p (cancelTimer p xs) = []"
  by (induction xs) (auto simp: timersOf_def cancelTimer_def)

lemma timersOf_cancel_other: "q \<noteq> p \<Longrightarrow> timersOf p (cancelTimer q xs) = timersOf p xs"
  by (induction xs) (auto simp: timersOf_def cancelTimer_def)

lemma timersOf_debouncedQueueAdd:
  "timersOf p (debounceTimers (debouncedQueueAdd p s)) = [(p, now s + 3000)]"
  by (simp add: debouncedQueueAdd_def) (simp add: timersOf_def)

lemma timersOf_sort_key: "timersOf p (sort_key f xs) = sort_key f (timersOf p xs)"
  by (simp add: timersOf_def filter_sort)

lemma timersOf_dueTimers:
  "timersOf p (dueTimers t s) =
     sort_key snd (filter (\<lambda>(q, d). d \<le> max t (now s)) (timersOf p (debounceTimers s)))"
  by (simp add: dueTimers_def timersOf_sort_key) (simp add: timersOf_def conj_commute split_def)

lemma timersOf_Nil_iff: "timersOf p xs = [] \<longleftrightarrow> p \<notin> fst ` set xs"
  by (force simp: timersOf_def filter_empty_conv)

lemma map_of_timersOf: "map_of xs p = map_of (timersOf p xs) p"
  by (induction xs) (auto simp: timersOf_def)

lemma fold_fired_timers:
  "debounceTimers (fold (\<lambda>(q, d). debounceFired q) due s) =
     filter (\<lambda>(q, d). q \<notin> fst ` set due) (debounceTimers s)"
proof (induction due arbitrary: s)
  case Nil
  then show ?case by simp
next
  case (Cons x due)
  obtain q d where x: "x = (q, d)" by (cases x)
  show ?case
    unfolding x by (simp add: Cons.IH) (auto simp: debounceFired_def cancelTimer_def intro: filter_cong)
qed

lemma fold_fired_now [simp]: "now (fold (\<lambda>(q, d). debounceFired q) due s) = now s"
  by (induction due arbitrary: s) (auto simp: split_def)

lemma now_advance [simp]: "now (advance t s) = max t (now s)"
  by (simp add: advance_def)

lemma timers_advance:
  "debounceTimers (advance t s) =
     filter (\<lambda>(q, d). q \<notin> fst ` set (dueTimers t s)) (debounceTimers s)"
  by (simp add: advance_def fold_fired_timers)

lemma fold_fired_keys [simp]:
  "map fst (projects (status (fold (\<lambda>(q, d). debounceFired q) due s))) = map fst (projects (status s))"
  by (induction due arbitrary: s) (auto simp: split_def debounceFired_def)

lemma projects_debounceFired:
  "projects (status (debounceFired q s)) =
     AList.map_entry q (\<lambda>pr. pr\<lparr>p_status := Queued\<rparr>) (projects (status s))"
  by (simp add: debounceFired_def)

lemma fold_fired_status:
  "p \<in> fst ` set due \<Longrightarrow>
   map_of (projects (status (fold (\<lambda>(q, d). debounceFired q) due s))) p = Some pr \<Longrightarrow>
   p_status pr = Queued"
proof (induction due arbitrary: s rule: rev_induct)
  case Nil
  then show ?case by simp
next
  case (snoc x due)
  obtain q d where x: "x = (q, d)" by (cases x)
  let ?s1 = "fold (\<lambda>(q, d). debounceFired q) due s"
  have m: "map_of (AList.map_entry q (\<lambda>pr. pr\<lparr>p_status := Queued\<rparr>) (projects (status ?s1))) p = Some pr"
    using snoc.prems(2) by (simp add: x projects_debounceFired)
  show ?case
  proof (cases "q = p")
    case True
    with m show ?thesis by (auto simp: map_of_map_entry_same)
  next
    case False
    with snoc.prems(1) x have "p \<in> fst ` set due" by auto
    moreover from m False have "map_of (projects (status ?s1)) p = Some pr"
      by (simp add: map_of_map_entry_other)
    ultimately show ?thesis by (rule snoc.IH)
  qed
qed

lemma p_not_due:
  assumes "timersOf p (debounceTimers s) = [] \<or> (\<exists>d. timersOf p (debounceTimers s) = [(p, d)] \<and> max t (now s) < d)"
  shows "timersOf p (dueTimers t s) = []"
    and "timersOf p (debounceTimers (advance t s)) = timersOf p (debounceTimers s)"
proof -
  show 1: "timersOf p (dueTimers t s) = []"
    using assms by (auto simp: timersOf_dueTimers)
  then have "p \<notin> fst ` set (dueTimers t s)" by (simp add: timersOf_Nil_iff)
  then have "\<And>q d. q = p \<Longrightarrow> q \<notin> fst ` set (dueTimers t s)" by simp
  then show "timersOf p (debounceTimers (advance t s)) = timersOf p (debounceTimers s)"
    unfolding timers_advance timersOf_def filter_filter
    by (intro filter_cong) auto
qed

lemma p_due:
  assumes "timersOf p (debounceTimers s) = [(p, d)]" "d \<le> max t (now s)"
  shows "timersOf p (dueTimers t s) = [(p, d)]"
    and "timersOf p (debounceTimers (advance t s)) = []"
proof -
  show 1: "timersOf p (dueTimers t s) = [(p, d)]"
    using assms by (auto simp: timersOf_dueTimers)
  then have "p \<in> fst ` set (dueTimers t s)"
    by (metis list.distinct(1) timersOf_Nil_iff)
  then show "timersOf p (debounceTimers (advance t s)) = []"
    unfolding timers_advance timersOf_def filter_filter
    by (auto simp: filter_empty_conv)
qed

lemma debouncedQueueAdd_fields [simp]:
  "syncQueue (debouncedQueueAdd p s) = syncQueue s"
  "status (debouncedQueueAdd p s) = status s"
  "now (debouncedQueueAdd p s) = now s"
  by (simp_all add: debouncedQueueAdd_def)

lemma advance_queue_eq:
  "set (syncQueue (advance t s)) = set (syncQueue s) \<union> fst ` set (dueTimers t s)"
  by (simp add: advance_def fold_debounceFired_queue)

lemma advance_keys [simp]:
  "map fst (projects (status (advance t s))) = map fst (projects (status s))"
  by (simp add: advance_def)

lemma advance_status:
  "p \<in> fst ` set (dueTimers t s) \<Longrightarrow>
   map_of (projects (status (advance t s))) p = Some pr \<Longrightarrow> p_status pr = Queued"
  using fold_fired_status [of p "dueTimers t s" s pr] by (simp add: advance_def)

lemma burst_tail: "burst (t # ts) \<Longrightarrow> burst ts"
  by (cases ts) auto

lemma burst_run:
  "ts \<noteq> [] \<Longrightarrow> burst ts \<Longrightarrow> now s \<le> hd ts \<Longrightarrow>
   timersOf p (debounceTimers s) = [] \<or>
     (\<exists>d. timersOf p (debounceTimers s) = [(p, d)] \<and> hd ts < d) \<Longrightarrow>
   runCalls (map (\<lambda>t. (t, p)) ts) s = (fired, s') \<Longrightarrow>
     timersOf p fired = [] \<and>
     timersOf p (debounceTimers s') = [(p, last ts + 3000)] \<and>
     now s' = last ts \<and>
     map fst (projects (status s')) = map fst (projects (status s)) \<and>
     set (syncQueue s') = set (syncQueue s) \<union> fst ` set fired"
proof (induction ts arbitrary: s fired s')
  case Nil
  then show ?case by simp
next
  case (Cons t ts)
  let ?s1 = "debouncedQueueAdd p (advance t s)"
  obtain fired1 s1' where rc: "runCalls (map (\<lambda>t. (t, p)) ts) ?s1 = (fired1, s1')"
    by (cases "runCalls (map (\<lambda>t. (t, p)) ts) ?s1") auto
  from Cons.prems(5) rc have res: "fired = dueTimers t s @ fired1" "s' = s1'"
    by simp_all
  from Cons.prems(3) have mx: "max t (now s) = t" by simp
  have nd: "timersOf p (debounceTimers s) = [] \<or>
     (\<exists>d. timersOf p (debounceTimers s) = [(p, d)] \<and> max t (now s) < d)"
    using Cons.prems(4) mx by simp
  have due: "timersOf p (dueTimers t s) = []" using nd by (rule p_not_due)
  have t1: "timersOf p (debounceTimers ?s1) = [(p, t + 3000)]"
    by (simp add: timersOf_debouncedQueueAdd mx)
  have n1: "now ?s1 = t" by (simp add: mx)
  have k1: "map fst (projects (status ?s1)) = map fst (projects (status s))" by simp
  have q1: "set (syncQueue ?s1) = set (syncQueue s) \<union> fst ` set (dueTimers t s)"
    by (simp add: advance_queue_eq)
  show ?case
  proof (cases ts)
    case Nil
    with rc have "fired1 = []" "s1' = ?s1" by simp_all
    with due t1 n1 k1 q1 Nil show ?thesis unfolding res by simp
  next
    case (Cons u us)
    with Cons.prems(2) have g: "t \<le> u" "u < t + 3000" by simp_all
    have ne: "ts \<noteq> []" using Cons by simp
    have b: "burst ts" using Cons.prems(2) by (rule burst_tail)
    have n: "now ?s1 \<le> hd ts" using g Cons n1 by simp
    have tm: "timersOf p (debounceTimers ?s1) = [] \<or>
       (\<exists>d. timersOf p (debounceTimers ?s1) = [(p, d)] \<and> hd ts < d)"
      using t1 g Cons by simp
    from Cons.IH [OF ne b n tm rc]
    have ih: "timersOf p fired1 = []"
      "timersOf p (debounceTimers s1') = [(p, last ts + 3000)]"
      "now s1' = last ts"
      "map fst (projects (status s1')) = map fst (projects (status ?s1))"
      "set (syncQueue s1') = set (syncQueue ?s1) \<union> fst ` set fired1"
      by simp_all
    from ih due k1 q1 ne show ?thesis unfolding res by auto
  qed
qed

text \<open>
  Claim C2, as amended: a call of \<open>debouncedQueueAdd(p)\<close> leaves exactly one pending timer
  for \<open>p\<close>, due 3000 ms after the call, whatever was pending before. For a burst of calls
  for \<open>p\<close>, each less than 3000 ms after the one before it, started with no timer pending
  for \<open>p\<close>: as long as the clock has not reached 3000 ms after the last call, no timer of
  \<open>p\<close> has fired, the timer of the last call is pending and the burst has not put \<open>p\<close>
  into the queue; once the clock has reached that time, exactly one timer of \<open>p\<close> has
  fired, at 3000 ms after the last call, \<open>p\<close> is in the queue, no timer is stored for \<open>p\<close>
  and the record of \<open>p\<close>, if there is one, has the status \<open>queued\<close>.
\<close>

theorem debounce_burst_enqueues_once:
  "timersOf p (debounceTimers (debouncedQueueAdd p s0)) = [(p, now s0 + 3000)] \<and>
   (ts \<noteq> [] \<and> burst ts \<and> now s \<le> hd ts \<and> timersOf p (debounceTimers s) = [] \<longrightarrow>
      (case settle T (runCalls (map (\<lambda>t. (t, p)) ts) s) of
         (fired, s') \<Rightarrow>
           if T < last ts + 3000 then
             timersOf p fired = [] \<and>
             map_of (debounceTimers s') p = Some (last ts + 3000) \<and>
             (p \<in> set (syncQueue s') \<longleftrightarrow> p \<in> set (syncQueue s))
           else
             timersOf p fired = [(p, last ts + 3000)] \<and>
             p \<in> set (syncQueue s') \<and>
             map_of (debounceTimers s') p = None \<and>
             (\<forall>pr. map_of (projects (status s')) p = Some pr \<longrightarrow> p_status pr = Queued)))"
proof (intro conjI impI)
  show "timersOf p (debounceTimers (debouncedQueueAdd p s0)) = [(p, now s0 + 3000)]"
    by (rule timersOf_debouncedQueueAdd)
next
  assume a: "ts \<noteq> [] \<and> burst ts \<and> now s \<le> hd ts \<and> timersOf p (debounceTimers s) = []"
  obtain fired1 s1 where rc: "runCalls (map (\<lambda>t. (t, p)) ts) s = (fired1, s1)"
    by (cases "runCalls (map (\<lambda>t. (t, p)) ts) s") auto
  from a have "timersOf p (debounceTimers s) = [] \<or>
     (\<exists>d. timersOf p (debounceTimers s) = [(p, d)] \<and> hd ts < d)" by simp
  from burst_run [OF _ _ _ this rc] a
  have r: "timersOf p fired1 = []"
    "timersOf p (debounceTimers s1) = [(p, last ts + 3000)]"
    "now s1 = last ts"
    "set (syncQueue s1) = set (syncQueue s) \<union> fst ` set fired1"
    by simp_all
  have nf: "p \<notin> fst ` set fired1" using r(1) by (simp add: timersOf_Nil_iff)
  have st: "settle T (runCalls (map (\<lambda>t. (t, p)) ts) s) = (fired1 @ dueTimers T s1, advance T s1)"
    by (simp add: settle_def rc)
  show "case settle T (runCalls (map (\<lambda>t. (t, p)) ts) s) of
         (fired, s') \<Rightarrow>
           if T < last ts + 3000 then
             timersOf p fired = [] \<and>
             map_of (debounceTimers s') p = Some (last ts + 3000) \<and>
             (p \<in> set (syncQueue s') \<longleftrightarrow> p \<in> set (syncQueue s))
           else
             timersOf p fired = [(p, last ts + 3000)] \<and>
             p \<in> set (syncQueue s') \<and>
             map_of (debounceTimers s') p = None \<and>
             (\<forall>pr. map_of (projects (status s')) p = Some pr \<longrightarrow> p_status pr = Queued)"
  proof (cases "T < last ts + 3000")
    case True
    then have "timersOf p (debounceTimers s1) = [] \<or>
       (\<exists>d. timersOf p (debounceTimers s1) = [(p, d)] \<and> max T (now s1) < d)"
      using r(2,3) by simp
    from p_not_due [OF this] r(2)
    have nd: "timersOf p (dueTimers T s1) = []"
      "timersOf p (debounceTimers (advance T s1)) = [(p, last ts + 3000)]"
      by simp_all
    have "p \<notin> fst ` set (dueTimers T s1)" using nd(1) by (simp add: timersOf_Nil_iff)
    then have q: "p \<in> set (syncQueue (advance T s1)) \<longleftrightarrow> p \<in> set (syncQueue s)"
      using nf by (auto simp: advance_queue_eq r(4))
    have m: "map_of (debounceTimers (advance T s1)) p = Some (last ts + 3000)"
      by (subst map_of_timersOf) (simp add: nd(2))
    from True r(1) nd(1) q m show ?thesis unfolding st by simp
  next
    case False
    then have le: "last ts + 3000 \<le> max T (now s1)" by simp
    from p_due [OF r(2) le]
    have d: "timersOf p (dueTimers T s1) = [(p, last ts + 3000)]"
      "timersOf p (debounceTimers (advance T s1)) = []"
      by simp_all
    have pin: "p \<in> fst ` set (dueTimers T s1)"
      using d(1) by (metis list.distinct(1) timersOf_Nil_iff)
    then have q: "p \<in> set (syncQueue (advance T s1))" by (simp add: advance_queue_eq)
    have m: "map_of (debounceTimers (advance T s1)) p = None"
      by (subst map_of_timersOf) (simp add: d(2))
    have s: "\<forall>pr. map_of (projects (status (advance T s1))) p = Some pr \<longrightarrow> p_status pr = Queued"
      using advance_status [OF pin] by blast
    from False r(1) d(1) q m s show ?thesis unfolding st by simp
  qed
qed

theorem debounce_burst_enqueues_once_witness:
  "[1000, 2000, 4500] \<noteq> [] \<and> burst [1000, 2000, 4500] \<and> now sampleIdle \<le> hd [1000, 2000, 4500] \<and>
   timersOf (js ''/w/a'') (debounceTimers sampleIdle) = [] \<and>
   fst (settle 7499 (runCalls (map (\<lambda>t. (t, js ''/w/a'')) [1000, 2000, 4500]) sampleIdle)) = [] \<and>
   fst (settle 7500 (runCalls (map (\<lambda>t. (t, js ''/w/a'')) [1000, 2000, 4500]) sampleIdle))
      = [(js ''/w/a'', 7500)] \<and>
   syncQueue (snd (settle 7500 (runCalls (map (\<lambda>t. (t, js ''/w/a'')) [1000, 2000, 4500]) sampleIdle)))
      = [js ''/w/a''] \<and>
   map (p_status \<circ> snd) (projects (status
      (snd (settle 7500 (runCalls (map (\<lambda>t. (t, js ''/w/a'')) [1000, 2000, 4500]) sampleIdle)))))
      = [Queued]"
  using debounce_burst_enqueues_once [where p = "js ''/w/a''" and ts = "[1000, 2000, 4500]"
      and s = sampleIdle and T = 7499]
    debounce_burst_enqueues_once [where p = "js ''/w/a''" and ts = "[1000, 2000, 4500]"
      and s = sampleIdle and T = 7500]
  by (simp add: sample_defs sched_defs settle_def timersOf_def updateStatus_def)

text \<open>
  Against claim C2 as stated, for every finite sequence of calls: two calls 5000 ms apart
  are two bursts, and the path is added twice, at 3000 ms and at 8000 ms, the first
  addition coming 3000 ms after the first call and not after the last.
\<close>

theorem debounce_two_bursts_counterexample:
  "fst (settle 8000 (runCalls [(0, js ''/w/a''), (5000, js ''/w/a'')] sampleStart))
     = [(js ''/w/a'', 3000), (js ''/w/a'', 8000)]"
  by (simp add: sample_defs sched_defs settle_def)

end
